theory Spec2Isabelle
  imports Complex_Main
begin

section \<open>Power monitor: embedding of \<^verbatim>\<open>power_monitor.py\<close>\<close>

text \<open>
  Conventions of the embedding.
  \<^item> Python floats that take part in arithmetic are real numbers: rounding, overflow and
    underflow of the binary64 format are not modelled, only the exceptions that Python
    raises (\<^verbatim>\<open>ZeroDivisionError\<close> for a float division by zero).
  \<^item> The values that are only compared (the classifier's input and thresholds) are
    \<open>pyfloat\<close>: a real, an infinity or NaN, ordered as IEEE 754 orders them.
  \<^item> A method that mutates its object takes the object and returns it updated, together
    with the outcome: \<open>Inl e\<close> when the exception \<open>e\<close> leaves the method, \<open>Inr v\<close> when
    it returns \<open>v\<close>.
  \<^item> The CSV file, the ADC and the clocks are the \<open>world\<close>; what they answer is fixed by
    an \<open>environment\<close>, which the program cannot see in advance. Operations on the file
    can fail; the ADC answers every read, and the two banners that \<^verbatim>\<open>run\<close> prints are
    left out.
\<close>

subsection \<open>Exceptions\<close>

datatype py_error = ZeroDivisionError | ValueError | OSError

subsection \<open>Floats that are compared\<close>

datatype pyfloat = NaN | NegInf | Finite real | PosInf

text \<open>\<^verbatim>\<open>a < b\<close> on floats: false as soon as one side is NaN.\<close>

fun float_lt :: "pyfloat \<Rightarrow> pyfloat \<Rightarrow> bool" where
  "float_lt NaN b = False"
| "float_lt a NaN = False"
| "float_lt a NegInf = False"
| "float_lt PosInf b = False"
| "float_lt NegInf b = True"
| "float_lt (Finite x) PosInf = True"
| "float_lt (Finite x) (Finite y) = (x < y)"

text \<open>\<^verbatim>\<open>a > b\<close> on floats.\<close>

definition float_gt :: "pyfloat \<Rightarrow> pyfloat \<Rightarrow> bool" where
  "float_gt a b = float_lt b a"

subsection \<open>Config\<close>

record Config =
  DEVICE_ID :: string
  MACHINE_ID :: string
  AMPLIFIER_GAIN :: real
  CT_RANGE_AMPS :: real
  LINE_VOLTAGE :: real
  PHASES :: int
  SAMPLE_RATE_HZ :: real
  AVERAGING_WINDOW :: int
  SLEEP_BETWEEN_WINDOWS_S :: real
  IDLE_THRESHOLD :: pyfloat
  FAULT_THRESHOLD :: pyfloat
  CSV_FLUSH_INTERVAL :: int
  MAX_RECORDS :: int

text \<open>The values of the class attributes as the source ships them.\<close>

definition default_Config :: Config where
  "default_Config =
     \<lparr>DEVICE_ID = ''pi-001'', MACHINE_ID = ''machine-A'',
      AMPLIFIER_GAIN = 100, CT_RANGE_AMPS = 50, LINE_VOLTAGE = 230, PHASES = 3,
      SAMPLE_RATE_HZ = 50, AVERAGING_WINDOW = 20, SLEEP_BETWEEN_WINDOWS_S = 0,
      IDLE_THRESHOLD = Finite (1 / 2), FAULT_THRESHOLD = Finite 100,
      CSV_FLUSH_INTERVAL = 10, MAX_RECORDS = 0\<rparr>"

subsection \<open>PowerMath\<close>

record PowerMath =
  gain :: real
  ct_range :: real
  line_voltage :: real
  phases :: int

definition ONE_OVER_SQRT2 :: real where
  "ONE_OVER_SQRT2 = 1 / sqrt 2"

text \<open>
  \<^verbatim>\<open>PowerMath.calculate\<close>. The only operation that can raise is the division by
  \<^verbatim>\<open>self.gain\<close>.
\<close>

definition calculate :: "PowerMath \<Rightarrow> real \<Rightarrow> py_error + real \<times> real" where
  "calculate self avg_adc_voltage =
     (if gain self = 0 then Inl ZeroDivisionError
      else
        let amplifier_voltage_in = avg_adc_voltage / gain self;
            clamp_current = amplifier_voltage_in * ct_range self;
            rms_current = clamp_current * ONE_OVER_SQRT2;
            power_w = of_int (phases self) * rms_current * line_voltage self
        in Inr (rms_current, power_w))"

subsection \<open>StateClassifier\<close>

record StateClassifier =
  idle_threshold :: pyfloat
  fault_threshold :: pyfloat

definition classify :: "StateClassifier \<Rightarrow> pyfloat \<Rightarrow> string" where
  "classify self current_rms =
     (if float_lt current_rms (idle_threshold self) then ''idle''
      else if float_gt current_rms (fault_threshold self) then ''fault''
      else ''running'')"

subsection \<open>The world outside the process\<close>

text \<open>One record of the log: the dictionary that \<^verbatim>\<open>Collector.run\<close> builds.\<close>

record measurement =
  timestamp :: string
  device_id :: string
  machine_id :: string
  current_rms :: real
  voltage :: real
  power_w :: real
  state :: string

text \<open>
  What a write leaves in the CSV file: the header line, one row of data, or, when the
  write was cut short, the first \<open>n\<close> bytes of the text of a line (\<open>Torn l n\<close>). The file
  is the sequence of these pieces in the order in which they were written.
\<close>

datatype line = Header "string list" | Data measurement | Torn line nat

text \<open>
  What the file system does to one operation on the file: it succeeds, it fails before
  anything is written (\<open>OpenFault\<close>: the directory or the file cannot be created or
  opened), or it fails after a part of the bytes handed over has reached the file
  (\<open>WriteFault k n\<close>: \<open>k\<close> whole lines and the first \<open>n\<close> bytes of the line after them).
  \<^verbatim>\<open>writerows\<close> hands its rows to a buffered file, the bytes reach the file in blocks
  and when the file is closed, and nothing undoes the bytes written before the one that
  fails: what is left need not end at the end of a row.
\<close>

datatype io_fault = NoFault | OpenFault | WriteFault nat nat

datatype open_mode = Truncate | Append

datatype event = Sampled real | Slept real

text \<open>
  The environment answers the \<open>n\<close>-th file operation, the \<open>n\<close>-th read of the ADC and
  the \<open>n\<close>-th call of \<^verbatim>\<open>datetime.utcnow().isoformat(timespec="milliseconds")\<close>.
\<close>

record environment =
  file_fault :: "nat \<Rightarrow> io_fault"
  adc_readData :: "nat \<Rightarrow> int"
  utcnow_iso :: "nat \<Rightarrow> string"

text \<open>
  The world: the file at \<^verbatim>\<open>CSV_PATH\<close> (\<open>None\<close> while it does not exist), how many file
  operations, ADC reads and clock reads have happened, and the samples and sleeps in the
  order in which they happened.
\<close>

record world =
  csv_file :: "line list option"
  file_ops :: nat
  adc_reads :: nat
  clock_reads :: nat
  events :: "event list"

definition no_faults :: "environment \<Rightarrow> bool" where
  "no_faults env = (\<forall>n. file_fault env n = NoFault)"

text \<open>The lines of the file, none when it does not exist.\<close>

definition file_lines :: "world \<Rightarrow> line list" where
  "file_lines w = (case csv_file w of None \<Rightarrow> [] | Some ls \<Rightarrow> ls)"

text \<open>\<^verbatim>\<open>path.parent.mkdir(parents=True, exist_ok=True)\<close>\<close>

definition mkdir_parents :: "environment \<Rightarrow> world \<Rightarrow> (py_error + unit) \<times> world" where
  "mkdir_parents env w =
     (let w' = w\<lparr>file_ops := file_ops w + 1\<rparr>
      in case file_fault env (file_ops w) of
           NoFault \<Rightarrow> (Inr (), w')
         | OpenFault \<Rightarrow> (Inl OSError, w')
         | WriteFault k n \<Rightarrow> (Inl OSError, w'))"

text \<open>
  What has reached the file of the lines \<open>ls\<close> when the write fails after \<open>k\<close> whole
  lines and \<open>n\<close> bytes of the next.
\<close>

definition written_before_fault :: "nat \<Rightarrow> nat \<Rightarrow> line list \<Rightarrow> line list" where
  "written_before_fault k n ls =
     take k ls @
     (case drop k ls of
        [] \<Rightarrow> []
      | l # rest \<Rightarrow> if n = 0 then [] else [Torn l n])"

text \<open>
  \<^verbatim>\<open>with open(path, mode, newline="") as f:\<close> followed by the writing of \<open>ls\<close>.
  Mode \<^verbatim>\<open>"w"\<close> empties the file first, mode \<^verbatim>\<open>"a"\<close> keeps what is there; both create
  the file when it does not exist.
\<close>

definition write_lines ::
  "environment \<Rightarrow> open_mode \<Rightarrow> line list \<Rightarrow> world \<Rightarrow> (py_error + unit) \<times> world" where
  "write_lines env mode ls w =
     (let old = (case mode of Truncate \<Rightarrow> [] | Append \<Rightarrow> file_lines w);
          w' = w\<lparr>file_ops := file_ops w + 1\<rparr>
      in case file_fault env (file_ops w) of
           NoFault \<Rightarrow> (Inr (), w'\<lparr>csv_file := Some (old @ ls)\<rparr>)
         | OpenFault \<Rightarrow> (Inl OSError, w')
         | WriteFault k n \<Rightarrow>
             (Inl OSError, w'\<lparr>csv_file := Some (old @ written_before_fault k n ls)\<rparr>))"

text \<open>\<^verbatim>\<open>time.sleep(secs)\<close> raises \<^verbatim>\<open>ValueError\<close> for a negative length.\<close>

definition sleep :: "real \<Rightarrow> world \<Rightarrow> (py_error + unit) \<times> world" where
  "sleep secs w =
     (if secs < 0 then (Inl ValueError, w)
      else (Inr (), w\<lparr>events := events w @ [Slept secs]\<rparr>))"

subsection \<open>MCP3008ADC\<close>

text \<open>\<^verbatim>\<open>sample_voltage\<close>: the raw 10-bit reading scaled to the 3.3 V reference.\<close>

definition sample_voltage :: "environment \<Rightarrow> world \<Rightarrow> real \<times> world" where
  "sample_voltage env w =
     (let raw = adc_readData env (adc_reads w);
          v = (of_int raw / (2 ^ 10 - 1)) * (33 / 10)
      in (v, w\<lparr>adc_reads := adc_reads w + 1, events := events w @ [Sampled v]\<rparr>))"

text \<open>The voltage that the \<open>n\<close>-th call of \<^verbatim>\<open>sample_voltage\<close> returns.\<close>

definition reading :: "environment \<Rightarrow> nat \<Rightarrow> real" where
  "reading env n = (of_int (adc_readData env n) / (2 ^ 10 - 1)) * (33 / 10)"

subsection \<open>CSVLogger\<close>

record CSVLogger =
  flush_interval :: int
  buffer :: "measurement list"
  total_written :: int

definition HEADERS :: "string list" where
  "HEADERS = [''timestamp'', ''device_id'', ''machine_id'', ''current_rms'', ''voltage'',
              ''power_w'', ''state'']"

definition write_headers :: "environment \<Rightarrow> world \<Rightarrow> (py_error + unit) \<times> world" where
  "write_headers env w = write_lines env Truncate [Header HEADERS] w"

text \<open>\<^verbatim>\<open>CSVLogger.__init__\<close>: an exception leaves no logger behind.\<close>

definition CSVLogger_init ::
  "environment \<Rightarrow> int \<Rightarrow> world \<Rightarrow> (py_error + CSVLogger) \<times> world" where
  "CSVLogger_init env interval w =
     (let self = \<lparr>flush_interval = interval, buffer = [], total_written = 0\<rparr>
      in case mkdir_parents env w of
           (Inl e, w1) \<Rightarrow> (Inl e, w1)
         | (Inr u, w1) \<Rightarrow>
             if csv_file w1 = None then
               (case write_headers env w1 of
                  (Inl e, w2) \<Rightarrow> (Inl e, w2)
                | (Inr u, w2) \<Rightarrow> (Inr self, w2))
             else (Inr self, w1))"

definition flush ::
  "environment \<Rightarrow> CSVLogger \<Rightarrow> world \<Rightarrow> (py_error + unit) \<times> CSVLogger \<times> world" where
  "flush env self w =
     (if buffer self = [] then (Inr (), self, w)
      else
        case write_lines env Append (map Data (buffer self)) w of
          (Inl e, w') \<Rightarrow> (Inl e, self, w')
        | (Inr u, w') \<Rightarrow>
            (Inr (),
             self\<lparr>total_written := total_written self + int (length (buffer self)),
                  buffer := []\<rparr>,
             w'))"

definition log ::
  "environment \<Rightarrow> measurement \<Rightarrow> CSVLogger \<Rightarrow> world
     \<Rightarrow> (py_error + unit) \<times> CSVLogger \<times> world" where
  "log env rec self w =
     (let self' = self\<lparr>buffer := buffer self @ [rec]\<rparr>
      in if int (length (buffer self')) \<ge> flush_interval self' then flush env self' w
         else (Inr (), self', w))"

text \<open>
  A caller that logs the records of a list one after the other and stops at the first
  exception.
\<close>

fun log_all ::
  "environment \<Rightarrow> measurement list \<Rightarrow> CSVLogger \<Rightarrow> world
     \<Rightarrow> (py_error + unit) \<times> CSVLogger \<times> world" where
  "log_all env [] self w = (Inr (), self, w)"
| "log_all env (r # rs) self w =
     (case log env r self w of
        (Inl e, self', w') \<Rightarrow> (Inl e, self', w')
      | (Inr u, self', w') \<Rightarrow> log_all env rs self' w')"

text \<open>
  One life of a logger on the store: open it, log the records, flush on the way out.
  \<open>sessions\<close> runs one such life after the other on the same file.
\<close>

definition session ::
  "environment \<Rightarrow> int \<Rightarrow> measurement list \<Rightarrow> world \<Rightarrow> (py_error + unit) \<times> world" where
  "session env interval rs w =
     (case CSVLogger_init env interval w of
        (Inl e, w1) \<Rightarrow> (Inl e, w1)
      | (Inr self, w1) \<Rightarrow>
          (case log_all env rs self w1 of
             (Inl e, self', w2) \<Rightarrow> (Inl e, w2)
           | (Inr u, self', w2) \<Rightarrow>
               (case flush env self' w2 of (r, self'', w3) \<Rightarrow> (r, w3))))"

fun sessions ::
  "environment \<Rightarrow> int \<Rightarrow> measurement list list \<Rightarrow> world \<Rightarrow> (py_error + unit) \<times> world" where
  "sessions env interval [] w = (Inr (), w)"
| "sessions env interval (rs # rss) w =
     (case session env interval rs w of
        (Inl e, w') \<Rightarrow> (Inl e, w')
      | (Inr u, w') \<Rightarrow> sessions env interval rss w')"

subsection \<open>Collector\<close>

record Collector =
  cfg :: Config
  math :: PowerMath
  classifier :: StateClassifier
  logger :: CSVLogger
  record_count :: int

definition Collector_init ::
  "environment \<Rightarrow> Config \<Rightarrow> world \<Rightarrow> (py_error + Collector) \<times> world" where
  "Collector_init env c w =
     (case CSVLogger_init env (CSV_FLUSH_INTERVAL c) w of
        (Inl e, w') \<Rightarrow> (Inl e, w')
      | (Inr lg, w') \<Rightarrow>
          (Inr \<lparr>cfg = c,
                math = \<lparr>gain = AMPLIFIER_GAIN c, ct_range = CT_RANGE_AMPS c,
                        line_voltage = LINE_VOLTAGE c, phases = PHASES c\<rparr>,
                classifier = \<lparr>idle_threshold = IDLE_THRESHOLD c,
                              fault_threshold = FAULT_THRESHOLD c\<rparr>,
                logger = lg,
                record_count = 0\<rparr>,
           w'))"

text \<open>The object that the constructor returns when no file operation fails.\<close>

definition new_Collector :: "Config \<Rightarrow> Collector" where
  "new_Collector c =
     \<lparr>cfg = c,
      math = \<lparr>gain = AMPLIFIER_GAIN c, ct_range = CT_RANGE_AMPS c,
              line_voltage = LINE_VOLTAGE c, phases = PHASES c\<rparr>,
      classifier = \<lparr>idle_threshold = IDLE_THRESHOLD c, fault_threshold = FAULT_THRESHOLD c\<rparr>,
      logger = \<lparr>flush_interval = CSV_FLUSH_INTERVAL c, buffer = [], total_written = 0\<rparr>,
      record_count = 0\<rparr>"

text \<open>
  The \<^verbatim>\<open>for\<close> loop of \<^verbatim>\<open>sample_window\<close>, with the number of iterations left and the
  samples appended so far.
\<close>

fun sample_loop ::
  "environment \<Rightarrow> real \<Rightarrow> nat \<Rightarrow> real list \<Rightarrow> world \<Rightarrow> (py_error + real list) \<times> world" where
  "sample_loop env interval 0 samples w = (Inr samples, w)"
| "sample_loop env interval (Suc n) samples w =
     (case sample_voltage env w of
        (v, w1) \<Rightarrow>
          (case sleep interval w1 of
             (Inl e, w2) \<Rightarrow> (Inl e, w2)
           | (Inr u, w2) \<Rightarrow> sample_loop env interval n (samples @ [v]) w2))"

text \<open>
  \<^verbatim>\<open>Collector.sample_window\<close>. \<^verbatim>\<open>1.0 / SAMPLE_RATE_HZ\<close> raises for a rate of zero, and
  \<^verbatim>\<open>sum(samples) / len(samples)\<close> raises when no sample was drawn; \<^verbatim>\<open>range\<close> of a
  number below one is empty.
\<close>

definition sample_window ::
  "environment \<Rightarrow> Collector \<Rightarrow> world \<Rightarrow> (py_error + real) \<times> world" where
  "sample_window env self w =
     (if SAMPLE_RATE_HZ (cfg self) = 0 then (Inl ZeroDivisionError, w)
      else
        let interval = 1 / SAMPLE_RATE_HZ (cfg self)
        in case sample_loop env interval (nat (AVERAGING_WINDOW (cfg self))) [] w of
             (Inl e, w') \<Rightarrow> (Inl e, w')
           | (Inr samples, w') \<Rightarrow>
               if length samples = 0 then (Inl ZeroDivisionError, w')
               else (Inr (sum_list samples / real (length samples)), w'))"

text \<open>\<^verbatim>\<open>round(x, ndigits)\<close>: to the nearest multiple of \<open>10\<^sup>-\<^sup>n\<close>, a tie to the even one.\<close>

definition round_half_even :: "real \<Rightarrow> int" where
  "round_half_even x =
     (let f = \<lfloor>x\<rfloor>; d = x - of_int f
      in if d < 1 / 2 then f else if 1 / 2 < d then f + 1
         else if even f then f else f + 1)"

definition py_round :: "real \<Rightarrow> nat \<Rightarrow> real" where
  "py_round x ndigits = of_int (round_half_even (x * 10 ^ ndigits)) / 10 ^ ndigits"

text \<open>
  The body of the \<^verbatim>\<open>while True\<close> loop of \<^verbatim>\<open>Collector.run\<close> down to
  \<^verbatim>\<open>self.record_count += 1\<close>.
\<close>

definition cycle ::
  "environment \<Rightarrow> Collector \<Rightarrow> world \<Rightarrow> (py_error + unit) \<times> Collector \<times> world" where
  "cycle env self w =
     (case sample_window env self w of
        (Inl e, w1) \<Rightarrow> (Inl e, self, w1)
      | (Inr avg_v, w1) \<Rightarrow>
          (case calculate (math self) avg_v of
             Inl e \<Rightarrow> (Inl e, self, w1)
           | Inr (rms, pw) \<Rightarrow>
               let st = classify (classifier self) (Finite rms);
                   rec = \<lparr>timestamp = utcnow_iso env (clock_reads w1) @ ''Z'',
                          device_id = DEVICE_ID (cfg self),
                          machine_id = MACHINE_ID (cfg self),
                          current_rms = py_round rms 4,
                          voltage = py_round (LINE_VOLTAGE (cfg self)) 1,
                          power_w = py_round pw 2,
                          state = st\<rparr>;
                   w2 = w1\<lparr>clock_reads := clock_reads w1 + 1\<rparr>
               in case log env rec (logger self) w2 of
                    (Inl e, lg, w3) \<Rightarrow> (Inl e, self\<lparr>logger := lg\<rparr>, w3)
                  | (Inr u, lg, w3) \<Rightarrow>
                      (Inr (), self\<lparr>logger := lg, record_count := record_count self + 1\<rparr>,
                       w3)))"

text \<open>
  The \<^verbatim>\<open>while True\<close> loop. It has no bound of its own: \<open>None\<close> is the run that never
  leaves the loop.
\<close>

partial_function (option) run_loop ::
  "environment \<Rightarrow> Collector \<Rightarrow> world \<Rightarrow> ((py_error + unit) \<times> Collector \<times> world) option" where
  "run_loop env self w =
     (case cycle env self w of
        (Inl e, self1, w1) \<Rightarrow> Some (Inl e, self1, w1)
      | (Inr u, self1, w1) \<Rightarrow>
          if MAX_RECORDS (cfg self1) \<noteq> 0 \<and> record_count self1 \<ge> MAX_RECORDS (cfg self1)
          then Some (Inr (), self1, w1)
          else if SLEEP_BETWEEN_WINDOWS_S (cfg self1) > 0 then
            (case sleep (SLEEP_BETWEEN_WINDOWS_S (cfg self1)) w1 of
               (Inl e, w2) \<Rightarrow> Some (Inl e, self1, w2)
             | (Inr u, w2) \<Rightarrow> run_loop env self1 w2)
          else run_loop env self1 w1)"

text \<open>\<^verbatim>\<open>Collector.run\<close>: the loop, then \<^verbatim>\<open>self.logger.flush()\<close>. The two banners are not modelled.\<close>

definition run ::
  "environment \<Rightarrow> Collector \<Rightarrow> world \<Rightarrow> ((py_error + unit) \<times> Collector \<times> world) option" where
  "run env self w =
     (case run_loop env self w of
        None \<Rightarrow> None
      | Some (Inl e, self1, w1) \<Rightarrow> Some (Inl e, self1, w1)
      | Some (Inr u, self1, w1) \<Rightarrow>
          (case flush env (logger self1) w1 of
             (r, lg, w2) \<Rightarrow> Some (r, self1\<lparr>logger := lg\<rparr>, w2)))"

text \<open>\<^verbatim>\<open>Collector(cfg).run()\<close>, as \<^verbatim>\<open>main\<close> does for the configuration it is given.\<close>

definition main ::
  "environment \<Rightarrow> Config \<Rightarrow> world \<Rightarrow> ((py_error + unit) \<times> Collector option \<times> world) option" where
  "main env c w =
     (case Collector_init env c w of
        (Inl e, w') \<Rightarrow> Some (Inl e, None, w')
      | (Inr self, w') \<Rightarrow>
          (case run env self w' of
             None \<Rightarrow> None
           | Some (r, self', w'') \<Rightarrow> Some (r, Some self', w'')))"

subsection \<open>Concrete inputs\<close>

text \<open>
  An environment in which no file operation fails and the ADC reads 0, and one in which
  every write fails when its first line, and no byte more, has reached the file. \<open>idle_row\<close> is the record that a cycle builds
  from a reading of 0 under the shipped identity and line voltage.
\<close>

definition quiet_env :: environment where
  "quiet_env = \<lparr>file_fault = (\<lambda>n. NoFault), adc_readData = (\<lambda>n. 0),
                 utcnow_iso = (\<lambda>n. ''2024-01-01T00:00:00.000'')\<rparr>"

definition torn_env :: environment where
  "torn_env = \<lparr>file_fault = (\<lambda>n. WriteFault 1 0), adc_readData = (\<lambda>n. 0),
                utcnow_iso = (\<lambda>n. ''2024-01-01T00:00:00.000'')\<rparr>"

text \<open>An environment in which every write fails ten bytes into its first line.\<close>

definition fragment_env :: environment where
  "fragment_env = \<lparr>file_fault = (\<lambda>n. WriteFault 0 10), adc_readData = (\<lambda>n. 0),
                    utcnow_iso = (\<lambda>n. ''2024-01-01T00:00:00.000'')\<rparr>"

definition idle_row :: "string \<Rightarrow> measurement" where
  "idle_row ts = \<lparr>timestamp = ts, device_id = ''pi-001'', machine_id = ''machine-A'',
                   current_rms = 0, voltage = 230, power_w = 0, state = ''idle''\<rparr>"

text \<open>
  The shipped configuration with a window of one sample and a limit of three records, and
  one with a limit of one record whose idle threshold lies above its fault threshold.
\<close>

definition three_records_Config :: Config where
  "three_records_Config = default_Config\<lparr>AVERAGING_WINDOW := 1, MAX_RECORDS := 3\<rparr>"

definition misordered_Config :: Config where
  "misordered_Config =
     default_Config\<lparr>AVERAGING_WINDOW := 1, MAX_RECORDS := 1,
                    IDLE_THRESHOLD := Finite 100, FAULT_THRESHOLD := Finite (1 / 2)\<rparr>"

text \<open>The world before the first run: no file, nothing read.\<close>

definition empty_world :: world where
  "empty_world = \<lparr>csv_file = None, file_ops = 0, adc_reads = 0, clock_reads = 0, events = []\<rparr>"

section \<open>Properties\<close>

subsection \<open>PowerMath.calculate\<close>

lemma sqrt2_lower: "141421 / 100000 < sqrt 2"
  by (rule real_less_rsqrt) (simp add: power2_eq_square)

lemma sqrt2_upper: "sqrt 2 < 141422 / 100000"
  by (rule real_less_lsqrt) (simp_all add: power2_eq_square)

lemma calculate_zero_gain: "gain self = 0 \<Longrightarrow> calculate self v = Inl ZeroDivisionError"
  by (simp add: calculate_def)

lemma calculate_Inr:
  "gain self \<noteq> 0 \<Longrightarrow>
   calculate self v =
     Inr (v / gain self * ct_range self / sqrt 2,
          of_int (phases self) * (v / gain self * ct_range self / sqrt 2) * line_voltage self)"
  by (simp add: calculate_def ONE_OVER_SQRT2_def Let_def)

text \<open>
  C1. For a gain other than zero (the division by the gain raises at zero, where the
  formula of the claim has no value either), \<open>calculate\<close> returns
  \<open>rms_current = (v_avg / gain) * ct_range / sqrt 2\<close> and
  \<open>power_w = phases * rms_current * line_voltage\<close>. For gain 100, clamp rating 50, line
  voltage 230, 3 phases and an averaged voltage of 1 the current is 0.35355 and the power
  243.95, each to within half a unit of its last digit.
\<close>

theorem calculate_formula:
  assumes "g \<noteq> 0"
  shows "calculate \<lparr>gain = g, ct_range = c, line_voltage = lv, phases = p\<rparr> v_avg =
           Inr (v_avg / g * c / sqrt 2, of_int p * (v_avg / g * c / sqrt 2) * lv)
         \<and> (\<exists>rms pw.
               calculate \<lparr>gain = 100, ct_range = 50, line_voltage = 230, phases = 3\<rparr> 1
                 = Inr (rms, pw)
               \<and> \<bar>rms - 35355 / 100000\<bar> < 5 / 1000000
               \<and> \<bar>pw - 24395 / 100\<bar> < 5 / 1000)"
proof -
  have general:
    "calculate \<lparr>gain = g, ct_range = c, line_voltage = lv, phases = p\<rparr> v_avg =
       Inr (v_avg / g * c / sqrt 2, of_int p * (v_avg / g * c / sqrt 2) * lv)"
    using assms by (simp add: calculate_Inr)
  have quarter: "(1::real) / 100 * 50 / sqrt 2 = sqrt 2 / 4"
    by (simp add: real_div_sqrt field_simps)
  have example:
    "calculate \<lparr>gain = 100, ct_range = 50, line_voltage = 230, phases = 3\<rparr> 1 =
       Inr (sqrt 2 / 4, 3 * (sqrt 2 / 4) * 230)"
    using quarter by (simp add: calculate_Inr)
  have rms: "\<bar>sqrt 2 / 4 - 35355 / 100000\<bar> < 5 / 1000000"
    using sqrt2_lower sqrt2_upper by simp
  have pw: "\<bar>3 * (sqrt 2 / 4) * 230 - 24395 / 100\<bar> < 5 / 1000"
    using sqrt2_lower sqrt2_upper by simp
  from general example rms pw show ?thesis by blast
qed

theorem calculate_formula_witness:
  "(100::real) \<noteq> 0
   \<and> calculate \<lparr>gain = 100, ct_range = 50, line_voltage = 230, phases = 3\<rparr> 1 =
       Inr (1 / 100 * 50 / sqrt 2, of_int 3 * (1 / 100 * 50 / sqrt 2) * 230)"
  using calculate_formula [of 100 50 230 3 1] by simp

text \<open>
  C8, as the claim states it, fails: with gain 1, clamp rating 1, one phase and a line
  voltage of -1 (a configuration with gain and clamp rating above zero), raising the
  averaged voltage from 0 to 1 lowers the power from 0 to \<open>- 1 / sqrt 2\<close>.
\<close>

theorem calculate_power_not_monotone:
  "gain \<lparr>gain = 1, ct_range = 1, line_voltage = - 1, phases = 1\<rparr> > 0
   \<and> ct_range \<lparr>gain = 1, ct_range = 1, line_voltage = - 1, phases = 1\<rparr> > 0
   \<and> (0::real) \<le> 0 \<and> (0::real) \<le> 1
   \<and> calculate \<lparr>gain = 1, ct_range = 1, line_voltage = - 1, phases = 1\<rparr> 0 = Inr (0, 0)
   \<and> calculate \<lparr>gain = 1, ct_range = 1, line_voltage = - 1, phases = 1\<rparr> 1
       = Inr (1 / sqrt 2, - (1 / sqrt 2))
   \<and> \<not> (0 \<le> - (1 / sqrt 2))"
  by (simp add: calculate_Inr)

text \<open>
  C8, amended. For gain and clamp rating above zero and a product of phase count and line
  voltage that is not negative, both outputs of \<open>calculate\<close> are non-decreasing in the
  averaged voltage: \<open>0 \<le> v1 \<le> v2\<close> gives \<open>rms_current v1 \<le> rms_current v2\<close> and
  \<open>power_w v1 \<le> power_w v2\<close>.
\<close>

theorem calculate_monotone:
  assumes "gain self > 0" and "ct_range self > 0"
    and "0 \<le> of_int (phases self) * line_voltage self"
    and "0 \<le> v1" and "v1 \<le> v2"
  shows "\<exists>rms1 pw1 rms2 pw2.
           calculate self v1 = Inr (rms1, pw1) \<and> calculate self v2 = Inr (rms2, pw2)
           \<and> rms1 \<le> rms2 \<and> pw1 \<le> pw2"
proof -
  let ?k = "ct_range self / (gain self * sqrt 2)"
  have k: "0 \<le> ?k" using assms(1,2) by simp
  have rms_eq: "v / gain self * ct_range self / sqrt 2 = v * ?k" for v
    by simp
  have rms: "v1 * ?k \<le> v2 * ?k"
    using assms(5) k by (rule mult_right_mono)
  have pw_eq: "of_int (phases self) * (v * ?k) * line_voltage self
                 = (v * ?k) * (of_int (phases self) * line_voltage self)" for v
    by (simp add: mult.commute mult.left_commute)
  have pw: "(v1 * ?k) * (of_int (phases self) * line_voltage self)
              \<le> (v2 * ?k) * (of_int (phases self) * line_voltage self)"
    using rms assms(3) by (rule mult_right_mono)
  have c1: "calculate self v1 =
              Inr (v1 * ?k, (v1 * ?k) * (of_int (phases self) * line_voltage self))"
    using assms(1) calculate_Inr [of self v1] rms_eq [of v1] pw_eq [of v1] by simp
  have c2: "calculate self v2 =
              Inr (v2 * ?k, (v2 * ?k) * (of_int (phases self) * line_voltage self))"
    using assms(1) calculate_Inr [of self v2] rms_eq [of v2] pw_eq [of v2] by simp
  from c1 c2 rms pw show ?thesis by blast
qed

theorem calculate_monotone_witness:
  "gain \<lparr>gain = 100, ct_range = 50, line_voltage = 230, phases = 3\<rparr> > 0
   \<and> ct_range \<lparr>gain = 100, ct_range = 50, line_voltage = 230, phases = 3\<rparr> > 0
   \<and> 0 \<le> of_int (phases \<lparr>gain = 100, ct_range = 50, line_voltage = 230, phases = 3\<rparr>)
           * line_voltage \<lparr>gain = 100, ct_range = 50, line_voltage = 230, phases = 3\<rparr>
   \<and> (0::real) \<le> 1 \<and> (1::real) \<le> 2
   \<and> (\<exists>rms1 pw1 rms2 pw2.
         calculate \<lparr>gain = 100, ct_range = 50, line_voltage = 230, phases = 3\<rparr> 1
           = Inr (rms1, pw1)
         \<and> calculate \<lparr>gain = 100, ct_range = 50, line_voltage = 230, phases = 3\<rparr> 2
           = Inr (rms2, pw2)
         \<and> rms1 \<le> rms2 \<and> pw1 \<le> pw2)"
  using calculate_monotone
    [of "\<lparr>gain = 100, ct_range = 50, line_voltage = 230, phases = 3\<rparr>" 1 2]
  by simp

subsection \<open>StateClassifier.classify\<close>

lemma float_lt_irrefl: "\<not> float_lt a a"
  by (cases a) auto

lemma float_lt_trans: "float_lt a b \<Longrightarrow> float_lt b c \<Longrightarrow> float_lt a c"
  by (cases a; cases b; cases c) auto

lemma float_lt_NaN_right: "\<not> float_lt a NaN"
  by (cases a) auto

text \<open>
  C3. With \<open>idle_threshold < fault_threshold\<close>: the label is idle exactly when the
  current is below the idle threshold, fault exactly when it is above the fault threshold,
  running exactly when it is neither; a current equal to either threshold is running. With
  the thresholds 0.5 and 100: 0.5 and 100 are running, 0.4999 is idle, 100.0001 is fault.
\<close>

theorem classify_thresholds:
  assumes "float_lt idle fault"
  shows "(classify \<lparr>idle_threshold = idle, fault_threshold = fault\<rparr> x = ''idle''
            \<longleftrightarrow> float_lt x idle)
       \<and> (classify \<lparr>idle_threshold = idle, fault_threshold = fault\<rparr> x = ''fault''
            \<longleftrightarrow> float_gt x fault)
       \<and> (classify \<lparr>idle_threshold = idle, fault_threshold = fault\<rparr> x = ''running''
            \<longleftrightarrow> \<not> float_lt x idle \<and> \<not> float_gt x fault)
       \<and> classify \<lparr>idle_threshold = idle, fault_threshold = fault\<rparr> idle = ''running''
       \<and> classify \<lparr>idle_threshold = idle, fault_threshold = fault\<rparr> fault = ''running''
       \<and> classify \<lparr>idle_threshold = Finite (5 / 10), fault_threshold = Finite 100\<rparr>
           (Finite (5 / 10)) = ''running''
       \<and> classify \<lparr>idle_threshold = Finite (5 / 10), fault_threshold = Finite 100\<rparr>
           (Finite (4999 / 10000)) = ''idle''
       \<and> classify \<lparr>idle_threshold = Finite (5 / 10), fault_threshold = Finite 100\<rparr>
           (Finite 100) = ''running''
       \<and> classify \<lparr>idle_threshold = Finite (5 / 10), fault_threshold = Finite 100\<rparr>
           (Finite (1000001 / 10000)) = ''fault''"
proof -
  have excl: "\<not> (float_lt x idle \<and> float_gt x fault)"
  proof
    assume both: "float_lt x idle \<and> float_gt x fault"
    then have "float_lt fault idle"
      unfolding float_gt_def using float_lt_trans by blast
    with assms have "float_lt idle idle" by (rule float_lt_trans)
    then show False by (simp add: float_lt_irrefl)
  qed
  have not_back: "\<not> float_lt fault idle"
  proof
    assume "float_lt fault idle"
    with assms have "float_lt idle idle" by (rule float_lt_trans)
    then show False by (simp add: float_lt_irrefl)
  qed
  have labels: "(classify \<lparr>idle_threshold = idle, fault_threshold = fault\<rparr> x = ''idle''
                   \<longleftrightarrow> float_lt x idle)
              \<and> (classify \<lparr>idle_threshold = idle, fault_threshold = fault\<rparr> x = ''fault''
                   \<longleftrightarrow> float_gt x fault)
              \<and> (classify \<lparr>idle_threshold = idle, fault_threshold = fault\<rparr> x = ''running''
                   \<longleftrightarrow> \<not> float_lt x idle \<and> \<not> float_gt x fault)"
    using excl by (auto simp: classify_def)
  have at_idle: "classify \<lparr>idle_threshold = idle, fault_threshold = fault\<rparr> idle = ''running''"
    using not_back by (simp add: classify_def float_gt_def float_lt_irrefl)
  have at_fault: "classify \<lparr>idle_threshold = idle, fault_threshold = fault\<rparr> fault = ''running''"
    using not_back by (simp add: classify_def float_gt_def float_lt_irrefl)
  have examples:
    "classify \<lparr>idle_threshold = Finite (5 / 10), fault_threshold = Finite 100\<rparr>
       (Finite (5 / 10)) = ''running''
     \<and> classify \<lparr>idle_threshold = Finite (5 / 10), fault_threshold = Finite 100\<rparr>
         (Finite (4999 / 10000)) = ''idle''
     \<and> classify \<lparr>idle_threshold = Finite (5 / 10), fault_threshold = Finite 100\<rparr>
         (Finite 100) = ''running''
     \<and> classify \<lparr>idle_threshold = Finite (5 / 10), fault_threshold = Finite 100\<rparr>
         (Finite (1000001 / 10000)) = ''fault''"
    by (simp add: classify_def float_gt_def)
  from labels at_idle at_fault examples show ?thesis by blast
qed

theorem classify_thresholds_witness:
  "float_lt (Finite (5 / 10)) (Finite 100)
   \<and> (classify \<lparr>idle_threshold = Finite (5 / 10), fault_threshold = Finite 100\<rparr> (Finite 7)
        = ''running''
      \<longleftrightarrow> \<not> float_lt (Finite 7) (Finite (5 / 10)) \<and> \<not> float_gt (Finite 7) (Finite 100))
   \<and> classify \<lparr>idle_threshold = Finite (5 / 10), fault_threshold = Finite 100\<rparr>
       (Finite (5 / 10)) = ''running''"
  using classify_thresholds [of "Finite (5 / 10)" "Finite 100" "Finite 7"] by simp

text \<open>
  C10. \<open>classify\<close> returns one of the three labels for every float, NaN and the
  infinities included, and whatever the thresholds are; a NaN current is running; a
  current below the idle threshold is idle even when the idle threshold is not below
  the fault threshold and the current is above the fault threshold as well.
\<close>

theorem classify_total:
  "classify c x \<in> {''idle'', ''running'', ''fault''}
   \<and> classify c NaN = ''running''
   \<and> (\<not> float_lt (idle_threshold c) (fault_threshold c) \<and> float_lt x (idle_threshold c)
        \<longrightarrow> classify c x = ''idle'')"
  by (simp add: classify_def float_gt_def float_lt_NaN_right)

theorem classify_total_witness:
  "\<not> float_lt (idle_threshold \<lparr>idle_threshold = Finite 100, fault_threshold = Finite (5 / 10)\<rparr>)
        (fault_threshold \<lparr>idle_threshold = Finite 100, fault_threshold = Finite (5 / 10)\<rparr>)
   \<and> float_lt (Finite 50)
        (idle_threshold \<lparr>idle_threshold = Finite 100, fault_threshold = Finite (5 / 10)\<rparr>)
   \<and> float_gt (Finite 50)
        (fault_threshold \<lparr>idle_threshold = Finite 100, fault_threshold = Finite (5 / 10)\<rparr>)
   \<and> classify \<lparr>idle_threshold = Finite 100, fault_threshold = Finite (5 / 10)\<rparr> (Finite 50)
       = ''idle''"
  using classify_total
    [of "\<lparr>idle_threshold = Finite 100, fault_threshold = Finite (5 / 10)\<rparr>" "Finite 50"]
  by (simp add: float_gt_def)

subsection \<open>CSVLogger.flush\<close>

lemma write_lines_NoFault:
  "file_fault env (file_ops w) = NoFault \<Longrightarrow>
   write_lines env Append ls w =
     (Inr (), w\<lparr>file_ops := file_ops w + 1, csv_file := Some (file_lines w @ ls)\<rparr>)"
  by (simp add: write_lines_def Let_def)

lemma write_lines_fault:
  "file_fault env (file_ops w) \<noteq> NoFault \<Longrightarrow>
   \<exists>w'. write_lines env Append ls w = (Inl OSError, w') \<and> file_ops w' = file_ops w + 1"
  by (cases "file_fault env (file_ops w)") (simp_all add: write_lines_def Let_def)

lemma flush_empty: "buffer self = [] \<Longrightarrow> flush env self w = (Inr (), self, w)"
  by (simp add: flush_def)

lemma flush_NoFault:
  "buffer self \<noteq> [] \<Longrightarrow> file_fault env (file_ops w) = NoFault \<Longrightarrow>
   flush env self w =
     (Inr (),
      self\<lparr>total_written := total_written self + int (length (buffer self)), buffer := []\<rparr>,
      w\<lparr>file_ops := file_ops w + 1,
        csv_file := Some (file_lines w @ map Data (buffer self))\<rparr>)"
  by (simp add: flush_def write_lines_NoFault)

lemma flush_fault:
  assumes "buffer self \<noteq> []" and "file_fault env (file_ops w) \<noteq> NoFault"
  shows "\<exists>w'. flush env self w = (Inl OSError, self, w') \<and> file_ops w' = file_ops w + 1"
proof -
  from write_lines_fault [OF assms(2), of "map Data (buffer self)"]
  obtain w' where w': "write_lines env Append (map Data (buffer self)) w = (Inl OSError, w')"
    "file_ops w' = file_ops w + 1"
    by blast
  from assms(1) w'(1) have "flush env self w = (Inl OSError, self, w')"
    by (simp add: flush_def)
  with w'(2) show ?thesis by blast
qed

text \<open>
  A failed write need not stop at the end of a row: ten bytes into the first of two
  buffered rows, \<open>flush\<close> raises, keeps buffer and counter, and leaves the fragment
  behind the header line.
\<close>

lemma flush_fragment:
  "flush fragment_env
     \<lparr>flush_interval = 10, buffer = [idle_row ''a'', idle_row ''b''], total_written = 0\<rparr>
     \<lparr>csv_file = Some [Header HEADERS], file_ops = 2, adc_reads = 0, clock_reads = 0,
       events = []\<rparr>
   = (Inl OSError,
      \<lparr>flush_interval = 10, buffer = [idle_row ''a'', idle_row ''b''], total_written = 0\<rparr>,
      \<lparr>csv_file = Some [Header HEADERS, Torn (Data (idle_row ''a'')) 10], file_ops = 3,
        adc_reads = 0, clock_reads = 0, events = []\<rparr>)"
  by (simp add: flush_def write_lines_def written_before_fault_def fragment_env_def
      file_lines_def)

text \<open>
  C2, as the claim states it, fails in its last part. When the write of a buffer of two
  records fails after the first row, \<open>flush\<close> raises and leaves buffer and counter as
  they were, but the first row is in the file: a part of the buffer is visible in the
  store.
\<close>

theorem flush_torn_write:
  "buffer \<lparr>flush_interval = 10, buffer = [idle_row ''a'', idle_row ''b''], total_written = 0\<rparr>
     \<noteq> []
   \<and> flush torn_env
       \<lparr>flush_interval = 10, buffer = [idle_row ''a'', idle_row ''b''], total_written = 0\<rparr>
       \<lparr>csv_file = Some [Header HEADERS], file_ops = 2, adc_reads = 0, clock_reads = 0,
         events = []\<rparr>
     = (Inl OSError,
        \<lparr>flush_interval = 10, buffer = [idle_row ''a'', idle_row ''b''], total_written = 0\<rparr>,
        \<lparr>csv_file = Some [Header HEADERS, Data (idle_row ''a'')], file_ops = 3,
          adc_reads = 0, clock_reads = 0, events = []\<rparr>)
   \<and> Some [Header HEADERS, Data (idle_row ''a'')] \<noteq> Some [Header HEADERS]"
  by (simp add: flush_def write_lines_def written_before_fault_def torn_env_def
      file_lines_def)

text \<open>
  C2, amended. \<open>flush\<close> on an empty buffer changes nothing and touches no file. On a
  buffer that is not empty it makes one file operation; when that succeeds, the file
  holds what it held followed by all buffered records in insertion order, the counter has
  grown by the number of records, and the buffer is empty; when it fails, the exception
  is raised and the buffer and the counter are as they were. Nothing is said of the file
  after a failure: a part of the buffered data may be visible in it.
\<close>

theorem flush_contract:
  "(buffer self = [] \<longrightarrow> flush env self w = (Inr (), self, w))
   \<and> (buffer self \<noteq> [] \<and> file_fault env (file_ops w) = NoFault \<longrightarrow>
        flush env self w =
          (Inr (),
           self\<lparr>total_written := total_written self + int (length (buffer self)),
                buffer := []\<rparr>,
           w\<lparr>file_ops := file_ops w + 1,
             csv_file := Some (file_lines w @ map Data (buffer self))\<rparr>))
   \<and> (buffer self \<noteq> [] \<and> file_fault env (file_ops w) \<noteq> NoFault \<longrightarrow>
        (\<exists>w'. flush env self w = (Inl OSError, self, w') \<and> file_ops w' = file_ops w + 1))"
  using flush_empty flush_NoFault flush_fault by blast

theorem flush_contract_witness:
  "flush quiet_env \<lparr>flush_interval = 10, buffer = [], total_written = 0\<rparr>
      \<lparr>csv_file = Some [Header HEADERS], file_ops = 2, adc_reads = 0, clock_reads = 0,
        events = []\<rparr>
     = (Inr (), \<lparr>flush_interval = 10, buffer = [], total_written = 0\<rparr>,
        \<lparr>csv_file = Some [Header HEADERS], file_ops = 2, adc_reads = 0, clock_reads = 0,
          events = []\<rparr>)
   \<and> flush quiet_env
       \<lparr>flush_interval = 10, buffer = [idle_row ''a'', idle_row ''b''], total_written = 0\<rparr>
       \<lparr>csv_file = Some [Header HEADERS], file_ops = 2, adc_reads = 0, clock_reads = 0,
         events = []\<rparr>
     = (Inr (), \<lparr>flush_interval = 10, buffer = [], total_written = 2\<rparr>,
        \<lparr>csv_file = Some [Header HEADERS, Data (idle_row ''a''), Data (idle_row ''b'')],
          file_ops = 3, adc_reads = 0, clock_reads = 0, events = []\<rparr>)
   \<and> (\<exists>w'. flush torn_env
         \<lparr>flush_interval = 10, buffer = [idle_row ''a'', idle_row ''b''], total_written = 0\<rparr>
         \<lparr>csv_file = Some [Header HEADERS], file_ops = 2, adc_reads = 0, clock_reads = 0,
           events = []\<rparr>
       = (Inl OSError,
          \<lparr>flush_interval = 10, buffer = [idle_row ''a'', idle_row ''b''], total_written = 0\<rparr>,
          w'))"
  using
    flush_contract [of "\<lparr>flush_interval = 10, buffer = [], total_written = 0\<rparr>" quiet_env
      "\<lparr>csv_file = Some [Header HEADERS], file_ops = 2, adc_reads = 0, clock_reads = 0,
        events = []\<rparr>"]
    flush_contract
      [of "\<lparr>flush_interval = 10, buffer = [idle_row ''a'', idle_row ''b''], total_written = 0\<rparr>"
        quiet_env
        "\<lparr>csv_file = Some [Header HEADERS], file_ops = 2, adc_reads = 0, clock_reads = 0,
          events = []\<rparr>"]
    flush_contract
      [of "\<lparr>flush_interval = 10, buffer = [idle_row ''a'', idle_row ''b''], total_written = 0\<rparr>"
        torn_env
        "\<lparr>csv_file = Some [Header HEADERS], file_ops = 2, adc_reads = 0, clock_reads = 0,
          events = []\<rparr>"]
  by (auto simp: quiet_env_def torn_env_def file_lines_def)

subsection \<open>CSVLogger.log and the life of a logger\<close>

lemma no_faultsD: "no_faults env \<Longrightarrow> file_fault env n = NoFault"
  by (simp add: no_faults_def)

lemma file_lines_update [simp]:
  "file_lines (w\<lparr>csv_file := Some ls\<rparr>) = ls"
  "file_lines (w\<lparr>file_ops := n\<rparr>) = file_lines w"
  by (simp_all add: file_lines_def)

lemma log_no_flush:
  "int (length (buffer self)) + 1 < flush_interval self \<Longrightarrow>
   log env r self w = (Inr (), self\<lparr>buffer := buffer self @ [r]\<rparr>, w)"
  by (simp add: log_def Let_def)

lemma log_flush:
  "flush_interval self \<le> int (length (buffer self)) + 1 \<Longrightarrow> no_faults env \<Longrightarrow>
   log env r self w =
     (Inr (),
      self\<lparr>buffer := [], total_written := total_written self + int (length (buffer self)) + 1\<rparr>,
      w\<lparr>file_ops := file_ops w + 1,
        csv_file := Some (file_lines w @ map Data (buffer self) @ [Data r])\<rparr>)"
  by (simp add: log_def Let_def flush_NoFault no_faultsD)

lemma log_all_rows:
  "no_faults env \<Longrightarrow>
   \<exists>self' w'. log_all env rs self w = (Inr (), self', w')
     \<and> flush_interval self' = flush_interval self
     \<and> file_lines w' @ map Data (buffer self') = file_lines w @ map Data (buffer self) @ map Data rs
     \<and> total_written self' + int (length (buffer self'))
         = total_written self + int (length (buffer self)) + int (length rs)"
proof (induction rs arbitrary: self w)
  case Nil
  then show ?case by simp
next
  case (Cons r rs)
  show ?case
  proof (cases "flush_interval self \<le> int (length (buffer self)) + 1")
    case True
    let ?s = "self\<lparr>buffer := [], total_written := total_written self + int (length (buffer self)) + 1\<rparr>"
    let ?w = "w\<lparr>file_ops := file_ops w + 1,
        csv_file := Some (file_lines w @ map Data (buffer self) @ [Data r])\<rparr>"
    from Cons.IH [OF Cons.prems, of ?s ?w] log_flush [OF True Cons.prems, of r w]
    show ?thesis by auto
  next
    case False
    then have small: "int (length (buffer self)) + 1 < flush_interval self" by simp
    let ?s = "self\<lparr>buffer := buffer self @ [r]\<rparr>"
    from Cons.IH [OF Cons.prems, of ?s w] log_no_flush [OF small, of env r w]
    show ?thesis by auto
  qed
qed

lemma div_mod_step:
  fixes b n F :: nat
  assumes "0 < F" and "Suc b = F"
  shows "(b + Suc n) div F = Suc (n div F) \<and> (b + Suc n) mod F = n mod F"
proof -
  have e: "b + Suc n = n + F" using assms by simp
  have "(n + F) div F = Suc (n div F)" using assms(1) by simp
  moreover have "(n + F) mod F = n mod F" by simp
  ultimately show ?thesis unfolding e by simp
qed

lemma log_all_counts:
  "no_faults env \<Longrightarrow> 1 \<le> flush_interval self \<Longrightarrow>
   int (length (buffer self)) < flush_interval self \<Longrightarrow>
   \<exists>self' w'. log_all env rs self w = (Inr (), self', w')
     \<and> length (buffer self') = (length (buffer self) + length rs) mod nat (flush_interval self)
     \<and> file_ops w' = file_ops w + (length (buffer self) + length rs) div nat (flush_interval self)"
proof (induction rs arbitrary: self w)
  case Nil
  then show ?case by simp
next
  case (Cons r rs)
  let ?F = "nat (flush_interval self)"
  have Fpos: "0 < ?F" using Cons.prems(2) by simp
  have blt: "length (buffer self) < ?F" using Cons.prems(3) by simp
  show ?case
  proof (cases "flush_interval self \<le> int (length (buffer self)) + 1")
    case True
    let ?s = "self\<lparr>buffer := [], total_written := total_written self + int (length (buffer self)) + 1\<rparr>"
    let ?w = "w\<lparr>file_ops := file_ops w + 1,
        csv_file := Some (file_lines w @ map Data (buffer self) @ [Data r])\<rparr>"
    have eq: "Suc (length (buffer self)) = ?F" using True blt by simp
    have p2: "1 \<le> flush_interval ?s" and p3: "int (length (buffer ?s)) < flush_interval ?s"
      using Cons.prems(2) by simp_all
    from Cons.IH [OF Cons.prems(1) p2 p3, of ?w]
    obtain self' w' where r: "log_all env rs ?s ?w = (Inr (), self', w')"
      "length (buffer self') = length rs mod ?F"
      "file_ops w' = file_ops w + 1 + length rs div ?F"
      by auto
    have step: "log_all env (r # rs) self w = log_all env rs ?s ?w"
      using log_flush [OF True Cons.prems(1), of r w] by simp
    show ?thesis
      using r step div_mod_step [OF Fpos eq, of "length rs"] by simp
  next
    case False
    then have small: "int (length (buffer self)) + 1 < flush_interval self" by simp
    let ?s = "self\<lparr>buffer := buffer self @ [r]\<rparr>"
    have p2: "1 \<le> flush_interval ?s" and p3: "int (length (buffer ?s)) < flush_interval ?s"
      using Cons.prems(2) small by simp_all
    from Cons.IH [OF Cons.prems(1) p2 p3, of w]
    obtain self' w' where r: "log_all env rs ?s w = (Inr (), self', w')"
      "length (buffer self') = (Suc (length (buffer self)) + length rs) mod ?F"
      "file_ops w' = file_ops w + (Suc (length (buffer self)) + length rs) div ?F"
      by auto
    have step: "log_all env (r # rs) self w = log_all env rs ?s w"
      using log_no_flush [OF small, of env r w] by simp
    show ?thesis using r step by simp
  qed
qed

lemma csv_file_lines: "csv_file w \<noteq> None \<Longrightarrow> csv_file w = Some (file_lines w)"
  by (auto simp: file_lines_def)

lemma flush_rows:
  assumes "no_faults env"
  shows "\<exists>self' w'. flush env self w = (Inr (), self', w')
     \<and> buffer self' = [] \<and> flush_interval self' = flush_interval self
     \<and> total_written self' = total_written self + int (length (buffer self))
     \<and> file_lines w' = file_lines w @ map Data (buffer self)
     \<and> (csv_file w \<noteq> None \<longrightarrow> csv_file w' \<noteq> None)"
proof (cases "buffer self = []")
  case True
  then show ?thesis by (simp add: flush_empty)
next
  case False
  from flush_NoFault [OF False no_faultsD [OF assms]] show ?thesis by simp
qed

lemma log_all_exists:
  "no_faults env \<Longrightarrow> csv_file w \<noteq> None \<Longrightarrow>
   \<exists>self' w'. log_all env rs self w = (Inr (), self', w') \<and> csv_file w' \<noteq> None"
proof (induction rs arbitrary: self w)
  case Nil
  then show ?case by simp
next
  case (Cons r rs)
  show ?case
  proof (cases "flush_interval self \<le> int (length (buffer self)) + 1")
    case True
    let ?s = "self\<lparr>buffer := [], total_written := total_written self + int (length (buffer self)) + 1\<rparr>"
    let ?w = "w\<lparr>file_ops := file_ops w + 1,
        csv_file := Some (file_lines w @ map Data (buffer self) @ [Data r])\<rparr>"
    have "csv_file ?w \<noteq> None" by simp
    from Cons.IH [OF Cons.prems(1) this, of ?s] log_flush [OF True Cons.prems(1), of r w]
    show ?thesis by simp
  next
    case False
    then have small: "int (length (buffer self)) + 1 < flush_interval self" by simp
    let ?s = "self\<lparr>buffer := buffer self @ [r]\<rparr>"
    from Cons.IH [OF Cons.prems, of ?s] log_no_flush [OF small, of env r w]
    show ?thesis by simp
  qed
qed

lemma init_absent:
  "no_faults env \<Longrightarrow> csv_file w = None \<Longrightarrow>
   CSVLogger_init env F w =
     (Inr \<lparr>flush_interval = F, buffer = [], total_written = 0\<rparr>,
      w\<lparr>file_ops := file_ops w + 2, csv_file := Some [Header HEADERS]\<rparr>)"
  by (simp add: CSVLogger_init_def mkdir_parents_def write_headers_def write_lines_def
      Let_def no_faultsD)

lemma init_present:
  "no_faults env \<Longrightarrow> csv_file w \<noteq> None \<Longrightarrow>
   CSVLogger_init env F w =
     (Inr \<lparr>flush_interval = F, buffer = [], total_written = 0\<rparr>,
      w\<lparr>file_ops := file_ops w + 1\<rparr>)"
  by (auto simp: CSVLogger_init_def mkdir_parents_def Let_def no_faultsD)

lemma init_keeps_file:
  "csv_file w \<noteq> None \<Longrightarrow> csv_file (snd (CSVLogger_init env F w)) = csv_file w"
  by (cases "file_fault env (file_ops w)")
     (auto simp: CSVLogger_init_def mkdir_parents_def Let_def)

lemma log_all_then_flush:
  assumes nf: "no_faults env" and ex: "csv_file w \<noteq> None" and emp: "buffer self = []"
  shows "\<exists>self' w' self'' w''.
           log_all env rs self w = (Inr (), self', w')
         \<and> flush env self' w' = (Inr (), self'', w'')
         \<and> buffer self'' = []
         \<and> total_written self'' = total_written self + int (length rs)
         \<and> csv_file w'' = Some (file_lines w @ map Data rs)"
proof -
  from log_all_rows [OF nf, of rs self w] log_all_exists [OF nf ex, of rs self]
  obtain self' w' where a: "log_all env rs self w = (Inr (), self', w')"
    "file_lines w' @ map Data (buffer self') = file_lines w @ map Data (buffer self) @ map Data rs"
    "total_written self' + int (length (buffer self'))
         = total_written self + int (length (buffer self)) + int (length rs)"
    "csv_file w' \<noteq> None"
    by auto
  from flush_rows [OF nf, of self' w']
  obtain self'' w'' where b: "flush env self' w' = (Inr (), self'', w'')"
    "buffer self'' = []"
    "total_written self'' = total_written self' + int (length (buffer self'))"
    "file_lines w'' = file_lines w' @ map Data (buffer self')"
    "csv_file w'' \<noteq> None"
    using a(4) by auto
  have "csv_file w'' = Some (file_lines w @ map Data rs)"
    using csv_file_lines [OF b(5)] b(4) a(2) emp by simp
  moreover have "total_written self'' = total_written self + int (length rs)"
    using b(3) a(3) emp by simp
  ultimately show ?thesis using a(1) b(1,2) by blast
qed

lemma session_rows:
  assumes nf: "no_faults env"
  shows "\<exists>w'. session env F rs w = (Inr (), w')
           \<and> csv_file w' =
               Some ((if csv_file w = None then [Header HEADERS] else file_lines w) @ map Data rs)"
proof (cases "csv_file w = None")
  case True
  let ?s = "\<lparr>flush_interval = F, buffer = [], total_written = 0\<rparr>"
  let ?w = "w\<lparr>file_ops := file_ops w + 2, csv_file := Some [Header HEADERS]\<rparr>"
  have i: "CSVLogger_init env F w = (Inr ?s, ?w)" using nf True by (rule init_absent)
  have "csv_file ?w \<noteq> None" and "buffer ?s = []" by simp_all
  from log_all_then_flush [OF nf this, of rs] i True show ?thesis
    by (auto simp: session_def)
next
  case False
  let ?s = "\<lparr>flush_interval = F, buffer = [], total_written = 0\<rparr>"
  let ?w = "w\<lparr>file_ops := file_ops w + 1\<rparr>"
  have i: "CSVLogger_init env F w = (Inr ?s, ?w)" using nf False by (rule init_present)
  have "csv_file ?w \<noteq> None" and "buffer ?s = []" using False by simp_all
  from log_all_then_flush [OF nf this, of rs] i False show ?thesis
    by (auto simp: session_def)
qed

lemma sessions_present:
  "no_faults env \<Longrightarrow> csv_file w = Some ls \<Longrightarrow>
   \<exists>w'. sessions env F rss w = (Inr (), w') \<and> csv_file w' = Some (ls @ map Data (concat rss))"
proof (induction rss arbitrary: w ls)
  case Nil
  then show ?case by simp
next
  case (Cons rs rss)
  from session_rows [OF Cons.prems(1), of F rs w] Cons.prems(2)
  obtain w1 where s: "session env F rs w = (Inr (), w1)" "csv_file w1 = Some (ls @ map Data rs)"
    by (auto simp: file_lines_def)
  from Cons.IH [OF Cons.prems(1) s(2)] s(1) show ?case by auto
qed

lemma sessions_absent:
  assumes nf: "no_faults env" and "csv_file w = None" and "rss \<noteq> []"
  shows "\<exists>w'. sessions env F rss w = (Inr (), w')
           \<and> csv_file w' = Some (Header HEADERS # map Data (concat rss))"
proof -
  from assms(3) obtain rs rest where rss: "rss = rs # rest" by (cases rss) auto
  from session_rows [OF nf, of F rs w] assms(2)
  obtain w1 where s: "session env F rs w = (Inr (), w1)"
    "csv_file w1 = Some (Header HEADERS # map Data rs)"
    by auto
  from sessions_present [OF nf s(2), of F rest] s(1) rss show ?thesis by auto
qed

lemma count_header_data: "count_list (map Data rs) (Header h) = 0"
  by (induction rs) auto

lemma no_faults_quiet: "no_faults quiet_env"
  by (simp add: no_faults_def quiet_env_def)

text \<open>
  C4. A logger with flush interval \<open>F \<ge> 1\<close> and an empty buffer logs \<open>N\<close> records
  while no file operation fails. Every flush that \<open>log\<close> triggers finds a buffer that is
  not empty and so makes one file operation, and nothing else touches the file: the
  number of file operations, \<open>N div F\<close>, is the number of automatic flushes. \<open>N mod F\<close>
  records stay buffered. A final flush leaves all \<open>N\<close> records in the file, in the order
  logged, behind what the file held, with the counter grown by \<open>N\<close>. After each call of
  \<open>log\<close> the buffer is shorter than \<open>F\<close>, so the next append makes it \<open>F\<close> long at most
  before the flush is triggered.
\<close>

theorem log_all_flush_count:
  assumes "no_faults env" and "1 \<le> flush_interval self" and "buffer self = []"
  shows "\<exists>self' w'.
           log_all env rs self w = (Inr (), self', w')
         \<and> file_ops w' = file_ops w + length rs div nat (flush_interval self)
         \<and> length (buffer self') = length rs mod nat (flush_interval self)
         \<and> (\<exists>self'' w''.
               flush env self' w' = (Inr (), self'', w'')
             \<and> buffer self'' = []
             \<and> total_written self'' = total_written self + int (length rs)
             \<and> file_lines w'' = file_lines w @ map Data rs)
         \<and> (\<forall>k\<le>length rs.
               \<exists>s wk. log_all env (take k rs) self w = (Inr (), s, wk)
                    \<and> int (length (buffer s)) < flush_interval self)"
proof -
  have b0: "int (length (buffer self)) < flush_interval self"
    using assms(2,3) by simp
  from log_all_counts [OF assms(1,2) b0, of rs w] assms(3)
  obtain self' w' where a: "log_all env rs self w = (Inr (), self', w')"
    "length (buffer self') = length rs mod nat (flush_interval self)"
    "file_ops w' = file_ops w + length rs div nat (flush_interval self)"
    by auto
  from log_all_rows [OF assms(1), of rs self w] a(1) assms(3)
  have rows: "file_lines w' @ map Data (buffer self') = file_lines w @ map Data rs"
    and tot: "total_written self' + int (length (buffer self'))
                = total_written self + int (length rs)"
    by auto
  from flush_rows [OF assms(1), of self' w']
  obtain self'' w'' where f: "flush env self' w' = (Inr (), self'', w'')"
    "buffer self'' = []"
    "total_written self'' = total_written self' + int (length (buffer self'))"
    "file_lines w'' = file_lines w' @ map Data (buffer self')"
    by auto
  have final: "\<exists>self'' w''.
               flush env self' w' = (Inr (), self'', w'')
             \<and> buffer self'' = []
             \<and> total_written self'' = total_written self + int (length rs)
             \<and> file_lines w'' = file_lines w @ map Data rs"
    using f rows tot by simp
  have bound: "\<forall>k\<le>length rs.
               \<exists>s wk. log_all env (take k rs) self w = (Inr (), s, wk)
                    \<and> int (length (buffer s)) < flush_interval self"
  proof (intro allI impI)
    fix k assume "k \<le> length rs"
    from log_all_counts [OF assms(1,2) b0, of "take k rs" w]
    obtain s wk where p: "log_all env (take k rs) self w = (Inr (), s, wk)"
      "length (buffer s) = (length (buffer self) + length (take k rs)) mod nat (flush_interval self)"
      by auto
    have "0 < nat (flush_interval self)" using assms(2) by simp
    then have "length (buffer s) < nat (flush_interval self)"
      unfolding p(2) by (rule mod_less_divisor)
    then have "int (length (buffer s)) < flush_interval self" by simp
    with p(1) show "\<exists>s wk. log_all env (take k rs) self w = (Inr (), s, wk)
                    \<and> int (length (buffer s)) < flush_interval self" by blast
  qed
  from a final bound show ?thesis by blast
qed

theorem log_all_flush_count_witness:
  "no_faults quiet_env
   \<and> 1 \<le> flush_interval \<lparr>flush_interval = 2, buffer = [], total_written = 0\<rparr>
   \<and> buffer \<lparr>flush_interval = 2, buffer = [], total_written = 0\<rparr> = []
   \<and> (\<exists>self' w'.
        log_all quiet_env [idle_row ''a'', idle_row ''b'', idle_row ''c'']
          \<lparr>flush_interval = 2, buffer = [], total_written = 0\<rparr> empty_world = (Inr (), self', w')
        \<and> file_ops w' = 1 \<and> length (buffer self') = 1
        \<and> (\<exists>self'' w''.
              flush quiet_env self' w' = (Inr (), self'', w'')
            \<and> buffer self'' = [] \<and> total_written self'' = 3
            \<and> file_lines w'' = [Data (idle_row ''a''), Data (idle_row ''b''), Data (idle_row ''c'')]))"
proof -
  have d: "(3::nat) div 2 = 1" "(3::nat) mod 2 = 1" by simp_all
  have fl: "file_lines empty_world = []" "file_ops empty_world = 0"
    by (simp_all add: file_lines_def empty_world_def)
  from log_all_flush_count
    [of quiet_env "\<lparr>flush_interval = 2, buffer = [], total_written = 0\<rparr>"
      "[idle_row ''a'', idle_row ''b'', idle_row ''c'']" empty_world]
  show ?thesis
    using no_faults_quiet d fl by simp blast
qed

text \<open>
  C6. While no file operation fails: opening the logger on a store that does not exist
  leaves a file that holds the header line and nothing else; opening it on a store that
  exists leaves the file as it is (and this holds whatever the file system does). Any
  number of lives of a logger, one after the other from a store that does not exist,
  leave the header line once, at the head, followed by all records in the order logged;
  on a store that exists they append their records behind what it held.
\<close>

theorem header_written_once:
  assumes "no_faults env"
  shows "(csv_file w = None \<longrightarrow>
            (\<exists>self w'. CSVLogger_init env F w = (Inr self, w')
                      \<and> csv_file w' = Some [Header HEADERS]))
       \<and> (csv_file w \<noteq> None \<longrightarrow>
            (\<exists>self w'. CSVLogger_init env F w = (Inr self, w') \<and> csv_file w' = csv_file w))
       \<and> (csv_file w \<noteq> None \<longrightarrow> csv_file (snd (CSVLogger_init env' F w)) = csv_file w)
       \<and> (csv_file w = None \<and> rss \<noteq> [] \<longrightarrow>
            (\<exists>w'. sessions env F rss w = (Inr (), w')
                 \<and> csv_file w' = Some (Header HEADERS # map Data (concat rss))
                 \<and> count_list (file_lines w') (Header HEADERS) = 1))
       \<and> (csv_file w \<noteq> None \<longrightarrow>
            (\<exists>w'. sessions env F rss w = (Inr (), w')
                 \<and> csv_file w' = Some (file_lines w @ map Data (concat rss))))"
proof -
  have p1: "csv_file w = None \<longrightarrow>
            (\<exists>self w'. CSVLogger_init env F w = (Inr self, w')
                      \<and> csv_file w' = Some [Header HEADERS])"
    using init_absent [OF assms, of w F] by simp
  have p2: "csv_file w \<noteq> None \<longrightarrow>
            (\<exists>self w'. CSVLogger_init env F w = (Inr self, w') \<and> csv_file w' = csv_file w)"
    using init_present [OF assms, of w F] by simp
  have p3: "csv_file w \<noteq> None \<longrightarrow> csv_file (snd (CSVLogger_init env' F w)) = csv_file w"
    using init_keeps_file by blast
  have p4: "csv_file w = None \<and> rss \<noteq> [] \<longrightarrow>
            (\<exists>w'. sessions env F rss w = (Inr (), w')
                 \<and> csv_file w' = Some (Header HEADERS # map Data (concat rss))
                 \<and> count_list (file_lines w') (Header HEADERS) = 1)"
  proof
    assume h: "csv_file w = None \<and> rss \<noteq> []"
    from sessions_absent [OF assms, of w rss F] h
    obtain w' where s: "sessions env F rss w = (Inr (), w')"
      "csv_file w' = Some (Header HEADERS # map Data (concat rss))" by auto
    have "count_list (file_lines w') (Header HEADERS) = 1"
      using s(2) by (simp add: file_lines_def count_header_data)
    with s show "\<exists>w'. sessions env F rss w = (Inr (), w')
                 \<and> csv_file w' = Some (Header HEADERS # map Data (concat rss))
                 \<and> count_list (file_lines w') (Header HEADERS) = 1" by blast
  qed
  have p5: "csv_file w \<noteq> None \<longrightarrow>
            (\<exists>w'. sessions env F rss w = (Inr (), w')
                 \<and> csv_file w' = Some (file_lines w @ map Data (concat rss)))"
  proof
    assume "csv_file w \<noteq> None"
    then have "csv_file w = Some (file_lines w)" by (rule csv_file_lines)
    from sessions_present [OF assms this, of F rss]
    show "\<exists>w'. sessions env F rss w = (Inr (), w')
                 \<and> csv_file w' = Some (file_lines w @ map Data (concat rss))" .
  qed
  from p1 p2 p3 p4 p5 show ?thesis by blast
qed

theorem header_written_once_witness:
  "no_faults quiet_env
   \<and> csv_file empty_world = None
   \<and> [ [idle_row ''a''], [], [idle_row ''b'', idle_row ''c'']] \<noteq> []
   \<and> (\<exists>w'. sessions quiet_env 10 [ [idle_row ''a''], [], [idle_row ''b'', idle_row ''c'']] empty_world
              = (Inr (), w')
          \<and> csv_file w' = Some [Header HEADERS, Data (idle_row ''a''), Data (idle_row ''b''),
                                Data (idle_row ''c'')])
   \<and> csv_file (empty_world\<lparr>csv_file := Some [Header HEADERS, Data (idle_row ''a'')]\<rparr>) \<noteq> None
   \<and> csv_file (snd (CSVLogger_init torn_env 10
        (empty_world\<lparr>csv_file := Some [Header HEADERS, Data (idle_row ''a'')]\<rparr>)))
       = Some [Header HEADERS, Data (idle_row ''a'')]
   \<and> (\<exists>w'. sessions quiet_env 10 [ [idle_row ''b'']]
              (empty_world\<lparr>csv_file := Some [Header HEADERS, Data (idle_row ''a'')]\<rparr>) = (Inr (), w')
          \<and> csv_file w' = Some [Header HEADERS, Data (idle_row ''a''), Data (idle_row ''b'')])"
proof -
  have e: "csv_file empty_world = None" by (simp add: empty_world_def)
  from header_written_once
    [OF no_faults_quiet, of empty_world 10 torn_env
      "[ [idle_row ''a''], [], [idle_row ''b'', idle_row ''c'']]"]
    header_written_once
    [OF no_faults_quiet,
      of "empty_world\<lparr>csv_file := Some [Header HEADERS, Data (idle_row ''a'')]\<rparr>" 10 torn_env
      "[ [idle_row ''b'']]"]
  show ?thesis using no_faults_quiet e by simp blast
qed

subsection \<open>Collector\<close>

lemma sample_voltage_eq:
  "sample_voltage env w =
     (reading env (adc_reads w),
      w\<lparr>adc_reads := adc_reads w + 1, events := events w @ [Sampled (reading env (adc_reads w))]\<rparr>)"
  by (simp add: sample_voltage_def reading_def Let_def)

lemma sample_loop_ok:
  "0 \<le> d \<Longrightarrow>
   \<exists>w'. sample_loop env d n samples w
          = (Inr (samples @ map (reading env) [adc_reads w ..< adc_reads w + n]), w')
      \<and> adc_reads w' = adc_reads w + n
      \<and> events w' = events w
          @ concat (map (\<lambda>v. [Sampled v, Slept d])
                        (map (reading env) [adc_reads w ..< adc_reads w + n]))
      \<and> csv_file w' = csv_file w \<and> file_ops w' = file_ops w \<and> clock_reads w' = clock_reads w"
proof (induction n arbitrary: samples w)
  case 0
  then show ?case by simp
next
  case (Suc n)
  let ?v = "reading env (adc_reads w)"
  let ?w2 = "w\<lparr>adc_reads := adc_reads w + 1, events := events w @ [Sampled ?v] @ [Slept d]\<rparr>"
  have step: "sample_loop env d (Suc n) samples w = sample_loop env d n (samples @ [?v]) ?w2"
    using Suc.prems by (simp add: sample_voltage_eq sleep_def)
  have upt: "[adc_reads w ..< adc_reads w + Suc n]
               = adc_reads w # [adc_reads ?w2 ..< adc_reads ?w2 + n]"
    by (simp add: upt_rec)
  from Suc.IH [OF Suc.prems, of "samples @ [?v]" ?w2]
  obtain w' where r: "sample_loop env d n (samples @ [?v]) ?w2
          = (Inr ((samples @ [?v]) @ map (reading env) [adc_reads ?w2 ..< adc_reads ?w2 + n]), w')"
      "adc_reads w' = adc_reads ?w2 + n"
      "events w' = events ?w2
          @ concat (map (\<lambda>v. [Sampled v, Slept d])
                        (map (reading env) [adc_reads ?w2 ..< adc_reads ?w2 + n]))"
      "csv_file w' = csv_file ?w2" "file_ops w' = file_ops ?w2" "clock_reads w' = clock_reads ?w2"
    by blast
  show ?case
    unfolding step upt using r by simp
qed


lemma sample_window_ok:
  assumes "SAMPLE_RATE_HZ (cfg self) > 0" and "AVERAGING_WINDOW (cfg self) \<ge> 1"
  shows "\<exists>vs w'.
           sample_window env self w = (Inr (sum_list vs / real (length vs)), w')
         \<and> vs = map (reading env) [adc_reads w ..< adc_reads w + nat (AVERAGING_WINDOW (cfg self))]
         \<and> int (length vs) = AVERAGING_WINDOW (cfg self)
         \<and> adc_reads w' = adc_reads w + nat (AVERAGING_WINDOW (cfg self))
         \<and> events w' = events w
             @ concat (map (\<lambda>v. [Sampled v, Slept (1 / SAMPLE_RATE_HZ (cfg self))]) vs)
         \<and> csv_file w' = csv_file w \<and> file_ops w' = file_ops w
         \<and> clock_reads w' = clock_reads w"
proof -
  let ?d = "1 / SAMPLE_RATE_HZ (cfg self)"
  let ?n = "nat (AVERAGING_WINDOW (cfg self))"
  let ?vs = "map (reading env) [adc_reads w ..< adc_reads w + ?n]"
  have d: "0 \<le> ?d" using assms(1) by simp
  from sample_loop_ok [OF d, of env ?n "[]" w]
  obtain w' where r: "sample_loop env ?d ?n [] w = (Inr ?vs, w')"
    "adc_reads w' = adc_reads w + ?n"
    "events w' = events w @ concat (map (\<lambda>v. [Sampled v, Slept ?d]) ?vs)"
    "csv_file w' = csv_file w" "file_ops w' = file_ops w" "clock_reads w' = clock_reads w"
    by auto
  have len: "int (length ?vs) = AVERAGING_WINDOW (cfg self)" using assms(2) by simp
  have ne: "length ?vs \<noteq> 0" using assms(2) by simp
  have "sample_window env self w = (Inr (sum_list ?vs / real (length ?vs)), w')"
    using assms(1) r(1) ne by (simp add: sample_window_def Let_def del: length_map length_upt)
  with r len show ?thesis by blast
qed

lemma file_lines_events [simp]:
  "file_lines (w\<lparr>events := es\<rparr>) = file_lines w"
  "file_lines (w\<lparr>clock_reads := n\<rparr>) = file_lines w"
  "file_lines (w\<lparr>adc_reads := n\<rparr>) = file_lines w"
  by (simp_all add: file_lines_def)

lemma file_lines_cong: "csv_file w' = csv_file w \<Longrightarrow> file_lines w' = file_lines w"
  by (simp add: file_lines_def)

lemma log_rows:
  assumes "no_faults env"
  shows "\<exists>lg w'. log env r self w = (Inr (), lg, w')
     \<and> flush_interval lg = flush_interval self
     \<and> total_written lg + int (length (buffer lg))
         = total_written self + int (length (buffer self)) + 1
     \<and> file_lines w' @ map Data (buffer lg) = file_lines w @ map Data (buffer self) @ [Data r]
     \<and> adc_reads w' = adc_reads w \<and> clock_reads w' = clock_reads w"
proof (cases "flush_interval self \<le> int (length (buffer self)) + 1")
  case True
  from log_flush [OF True assms, of r w] show ?thesis by simp
next
  case False
  then have small: "int (length (buffer self)) + 1 < flush_interval self" by simp
  from log_no_flush [OF small, of env r w] show ?thesis by simp
qed

lemma cycle_ok:
  assumes nf: "no_faults env"
    and rate: "SAMPLE_RATE_HZ (cfg self) > 0" and win: "AVERAGING_WINDOW (cfg self) \<ge> 1"
    and g: "gain (math self) \<noteq> 0"
  shows "\<exists>r lg w'.
           cycle env self w
             = (Inr (), self\<lparr>logger := lg, record_count := record_count self + 1\<rparr>, w')
         \<and> flush_interval lg = flush_interval (logger self)
         \<and> total_written lg + int (length (buffer lg))
             = total_written (logger self) + int (length (buffer (logger self))) + 1
         \<and> file_lines w' @ map Data (buffer lg)
             = file_lines w @ map Data (buffer (logger self)) @ [Data r]
         \<and> adc_reads w' = adc_reads w + nat (AVERAGING_WINDOW (cfg self))
         \<and> clock_reads w' = clock_reads w + 1"
proof -
  from sample_window_ok [OF rate win, of env w]
  obtain avg w1 where sw: "sample_window env self w = (Inr avg, w1)"
    "adc_reads w1 = adc_reads w + nat (AVERAGING_WINDOW (cfg self))"
    "csv_file w1 = csv_file w" "clock_reads w1 = clock_reads w"
    by blast
  from calculate_Inr [OF g, of avg]
  obtain rms pw where c: "calculate (math self) avg = Inr (rms, pw)" by blast
  define r where "r = \<lparr>timestamp = utcnow_iso env (clock_reads w1) @ ''Z'',
                          device_id = DEVICE_ID (cfg self),
                          machine_id = MACHINE_ID (cfg self),
                          current_rms = py_round rms 4,
                          voltage = py_round (LINE_VOLTAGE (cfg self)) 1,
                          power_w = py_round pw 2,
                          state = classify (classifier self) (Finite rms)\<rparr>"
  let ?w2 = "w1\<lparr>clock_reads := clock_reads w1 + 1\<rparr>"
  from log_rows [OF nf, of r "logger self" ?w2]
  obtain lg w3 where l: "log env r (logger self) ?w2 = (Inr (), lg, w3)"
    "flush_interval lg = flush_interval (logger self)"
    "total_written lg + int (length (buffer lg))
         = total_written (logger self) + int (length (buffer (logger self))) + 1"
    "file_lines w3 @ map Data (buffer lg)
         = file_lines ?w2 @ map Data (buffer (logger self)) @ [Data r]"
    "adc_reads w3 = adc_reads ?w2" "clock_reads w3 = clock_reads ?w2"
    by blast
  have cy: "cycle env self w
             = (Inr (), self\<lparr>logger := lg, record_count := record_count self + 1\<rparr>, w3)"
    using sw(1) c l(1) by (simp add: cycle_def Let_def r_def)
  have fl: "file_lines ?w2 = file_lines w"
    using file_lines_cong [OF sw(3)] by simp
  show ?thesis
    using cy l(2,3,4,5,6) sw(2,4) fl by auto
qed

lemma sleep_pos:
  "0 < d \<Longrightarrow> sleep d w = (Inr (), w\<lparr>events := events w @ [Slept d]\<rparr>)"
  by (simp add: sleep_def)

lemma run_loop_stops:
  assumes nf: "no_faults env"
  shows "SAMPLE_RATE_HZ (cfg self) > 0 \<Longrightarrow> AVERAGING_WINDOW (cfg self) \<ge> 1 \<Longrightarrow>
     gain (math self) \<noteq> 0 \<Longrightarrow> 0 < MAX_RECORDS (cfg self) \<Longrightarrow>
     record_count self < MAX_RECORDS (cfg self) \<Longrightarrow>
     n = nat (MAX_RECORDS (cfg self) - record_count self) \<Longrightarrow>
     \<exists>lg w' rs.
        run_loop env self w
          = Some (Inr (), self\<lparr>logger := lg, record_count := MAX_RECORDS (cfg self)\<rparr>, w')
      \<and> flush_interval lg = flush_interval (logger self)
      \<and> total_written lg + int (length (buffer lg))
          = total_written (logger self) + int (length (buffer (logger self))) + int n
      \<and> length rs = n
      \<and> file_lines w' @ map Data (buffer lg)
          = file_lines w @ map Data (buffer (logger self)) @ map Data rs
      \<and> adc_reads w' = adc_reads w + n * nat (AVERAGING_WINDOW (cfg self))
      \<and> clock_reads w' = clock_reads w + n"
proof (induction n arbitrary: self w)
  case 0
  then show ?case by simp
next
  case (Suc n)
  let ?M = "MAX_RECORDS (cfg self)"
  from cycle_ok [OF nf Suc.prems(1,2,3), of w]
  obtain r lg1 w1 where cy:
    "cycle env self w = (Inr (), self\<lparr>logger := lg1, record_count := record_count self + 1\<rparr>, w1)"
    "flush_interval lg1 = flush_interval (logger self)"
    "total_written lg1 + int (length (buffer lg1))
       = total_written (logger self) + int (length (buffer (logger self))) + 1"
    "file_lines w1 @ map Data (buffer lg1)
       = file_lines w @ map Data (buffer (logger self)) @ [Data r]"
    "adc_reads w1 = adc_reads w + nat (AVERAGING_WINDOW (cfg self))"
    "clock_reads w1 = clock_reads w + 1"
    by blast
  let ?s1 = "self\<lparr>logger := lg1, record_count := record_count self + 1\<rparr>"
  have Mpos: "?M \<noteq> 0" using Suc.prems(4) by auto
  show ?case
  proof (cases "?M \<le> record_count self + 1")
    case True
    then have last: "record_count self + 1 = ?M" and n0: "n = 0"
      using Suc.prems(5,6) by auto
    have "run_loop env self w = Some (Inr (), ?s1, w1)"
      using cy(1) True Mpos by (subst run_loop.simps) simp
    then have res: "run_loop env self w
          = Some (Inr (), self\<lparr>logger := lg1, record_count := ?M\<rparr>, w1)"
      using last by simp
    have "length [r] = Suc n" using n0 by simp
    moreover have "file_lines w1 @ map Data (buffer lg1)
       = file_lines w @ map Data (buffer (logger self)) @ map Data [r]"
      using cy(4) by simp
    ultimately show ?thesis
      using res cy(2,3,5,6) n0 by (intro exI [of _ lg1] exI [of _ w1] exI [of _ "[r]"]) simp
  next
    case False
    then have more: "record_count ?s1 < MAX_RECORDS (cfg ?s1)" by simp
    have n: "n = nat (MAX_RECORDS (cfg ?s1) - record_count ?s1)"
      using Suc.prems(6) by simp
    define w2 where
      "w2 = (if 0 < SLEEP_BETWEEN_WINDOWS_S (cfg self)
             then w1\<lparr>events := events w1 @ [Slept (SLEEP_BETWEEN_WINDOWS_S (cfg self))]\<rparr>
             else w1)"
    have unfold: "run_loop env self w = run_loop env ?s1 w2"
      using cy(1) False Mpos by (subst run_loop.simps) (simp add: sleep_pos w2_def)
    have w2: "file_lines w2 = file_lines w1" "adc_reads w2 = adc_reads w1"
      "clock_reads w2 = clock_reads w1"
      by (simp_all add: w2_def)
    have p1: "SAMPLE_RATE_HZ (cfg ?s1) > 0" and p2: "AVERAGING_WINDOW (cfg ?s1) \<ge> 1"
      and p3: "gain (math ?s1) \<noteq> 0" and p4: "0 < MAX_RECORDS (cfg ?s1)"
      using Suc.prems(1,2,3,4) by simp_all
    from Suc.IH [OF p1 p2 p3 p4 more n, of w2]
    obtain lg w' rs where ih:
      "run_loop env ?s1 w2
          = Some (Inr (), ?s1\<lparr>logger := lg, record_count := MAX_RECORDS (cfg ?s1)\<rparr>, w')"
      "flush_interval lg = flush_interval (logger ?s1)"
      "total_written lg + int (length (buffer lg))
          = total_written (logger ?s1) + int (length (buffer (logger ?s1))) + int n"
      "length rs = n"
      "file_lines w' @ map Data (buffer lg)
          = file_lines w2 @ map Data (buffer (logger ?s1)) @ map Data rs"
      "adc_reads w' = adc_reads w2 + n * nat (AVERAGING_WINDOW (cfg ?s1))"
      "clock_reads w' = clock_reads w2 + n"
      by blast
    have res: "run_loop env self w
          = Some (Inr (), self\<lparr>logger := lg, record_count := ?M\<rparr>, w')"
      using unfold ih(1) by simp
    have rows: "file_lines w' @ map Data (buffer lg)
          = file_lines w @ map Data (buffer (logger self)) @ map Data (r # rs)"
      using ih(5) w2(1) cy(4) by simp
    have len: "length (r # rs) = Suc n" using ih(4) by simp
    have tot: "total_written lg + int (length (buffer lg))
          = total_written (logger self) + int (length (buffer (logger self))) + int (Suc n)"
      using ih(3) cy(3) by simp
    have adc: "adc_reads w' = adc_reads w + Suc n * nat (AVERAGING_WINDOW (cfg self))"
      using ih(6) w2(2) cy(5) by simp
    have clk: "clock_reads w' = clock_reads w + Suc n"
      using ih(7) w2(3) cy(6) by simp
    have fi: "flush_interval lg = flush_interval (logger self)"
      using ih(2) cy(2) by simp
    from res fi tot len rows adc clk show ?thesis by blast
  qed
qed

lemma cycle_cfg:
  "cycle env self w = (r, self', w') \<Longrightarrow> cfg self' = cfg self \<and> math self' = math self"
  by (auto simp: cycle_def Let_def split: prod.splits sum.splits)

lemma run_loop_unbounded:
  assumes "run_loop env self w = Some y"
  shows "MAX_RECORDS (cfg self) = 0 \<longrightarrow> (\<exists>e s. y = (Inl e, s))"
  using assms
proof (induction rule: run_loop.raw_induct [rotated 1, consumes 1, case_names step])
  case (step f env self w y)
  note IH = step(1) and eq = step(2)
  show ?case
  proof
    assume z: "MAX_RECORDS (cfg self) = 0"
    obtain r self1 w1 where cy: "cycle env self w = (r, self1, w1)"
      by (cases "cycle env self w") auto
    from cycle_cfg [OF cy] z have z1: "MAX_RECORDS (cfg self1) = 0" by simp
    show "\<exists>e s. y = (Inl e, s)"
    proof (cases r)
      case (Inl e)
      with eq cy show ?thesis by auto
    next
      case (Inr u)
      show ?thesis
      proof (cases "0 < SLEEP_BETWEEN_WINDOWS_S (cfg self1)")
        case True
        then have "f env self1 (w1\<lparr>events := events w1 @ [Slept (SLEEP_BETWEEN_WINDOWS_S (cfg self1))]\<rparr>) = Some y"
          using eq cy Inr z1 by (simp add: sleep_pos)
        from IH [OF this] z1 show ?thesis by simp
      next
        case False
        then have "f env self1 w1 = Some y"
          using eq cy Inr z1 by simp
        from IH [OF this] z1 show ?thesis by simp
      qed
    qed
  qed
qed

lemma run_loop_no_error:
  assumes "run_loop env self w = Some y"
  shows "no_faults env \<and> SAMPLE_RATE_HZ (cfg self) > 0 \<and> AVERAGING_WINDOW (cfg self) \<ge> 1
           \<and> gain (math self) \<noteq> 0 \<longrightarrow> (\<exists>s. y = (Inr (), s))"
  using assms
proof (induction rule: run_loop.raw_induct [rotated 1, consumes 1, case_names step])
  case (step f env self w y)
  note IH = step(1) and eq = step(2)
  show ?case
  proof
    assume ok: "no_faults env \<and> SAMPLE_RATE_HZ (cfg self) > 0 \<and> AVERAGING_WINDOW (cfg self) \<ge> 1
           \<and> gain (math self) \<noteq> 0"
    from cycle_ok [of env self w] ok
    obtain lg w1 where cy: "cycle env self w
       = (Inr (), self\<lparr>logger := lg, record_count := record_count self + 1\<rparr>, w1)"
      by blast
    let ?s1 = "self\<lparr>logger := lg, record_count := record_count self + 1\<rparr>"
    have ok1: "no_faults env \<and> SAMPLE_RATE_HZ (cfg ?s1) > 0 \<and> AVERAGING_WINDOW (cfg ?s1) \<ge> 1
           \<and> gain (math ?s1) \<noteq> 0"
      using ok by simp
    show "\<exists>s. y = (Inr (), s)"
    proof (cases "MAX_RECORDS (cfg self) \<noteq> 0 \<and> MAX_RECORDS (cfg self) \<le> record_count self + 1")
      case True
      with eq cy show ?thesis by auto
    next
      case stop: False
      show ?thesis
      proof (cases "0 < SLEEP_BETWEEN_WINDOWS_S (cfg self)")
        case True
        then have "f env ?s1 (w1\<lparr>events := events w1 @ [Slept (SLEEP_BETWEEN_WINDOWS_S (cfg self))]\<rparr>) = Some y"
          using eq cy stop by (auto simp: sleep_pos)
        from IH [OF this] ok1 show ?thesis by blast
      next
        case False
        then have "f env ?s1 w1 = Some y"
          using eq cy stop by auto
        from IH [OF this] ok1 show ?thesis by blast
      qed
    qed
  qed
qed

lemma run_loop_forever:
  assumes "no_faults env" and "SAMPLE_RATE_HZ (cfg self) > 0"
    and "AVERAGING_WINDOW (cfg self) \<ge> 1" and "gain (math self) \<noteq> 0"
    and "MAX_RECORDS (cfg self) = 0"
  shows "run_loop env self w = None"
proof (cases "run_loop env self w")
  case None
  then show ?thesis .
next
  case (Some y)
  from run_loop_unbounded [OF Some] assms(5) obtain e s where "y = (Inl e, s)" by blast
  moreover from run_loop_no_error [OF Some] assms(1-4) obtain s' where "y = (Inr (), s')" by blast
  ultimately show ?thesis by simp
qed

lemma Collector_init_ok:
  assumes "no_faults env"
  shows "\<exists>w0. Collector_init env c w = (Inr (new_Collector c), w0)
            \<and> file_lines w0 = (if csv_file w = None then [Header HEADERS] else file_lines w)
            \<and> adc_reads w0 = adc_reads w \<and> clock_reads w0 = clock_reads w"
proof (cases "csv_file w = None")
  case True
  from init_absent [OF assms True, of "CSV_FLUSH_INTERVAL c"] True show ?thesis
    by (simp add: Collector_init_def new_Collector_def)
next
  case False
  from init_present [OF assms False, of "CSV_FLUSH_INTERVAL c"] False show ?thesis
    by (auto simp: Collector_init_def new_Collector_def)
qed

lemma sample_window_invalid:
  assumes "SAMPLE_RATE_HZ (cfg self) \<le> 0 \<or> AVERAGING_WINDOW (cfg self) < 1"
  shows "\<exists>e w'. sample_window env self w = (Inl e, w')
           \<and> (e = ZeroDivisionError \<or> e = ValueError)
           \<and> csv_file w' = csv_file w \<and> clock_reads w' = clock_reads w"
proof (cases "SAMPLE_RATE_HZ (cfg self) = 0")
  case True
  then show ?thesis by (simp add: sample_window_def)
next
  case nz: False
  show ?thesis
  proof (cases "AVERAGING_WINDOW (cfg self) < 1")
    case True
    then have "nat (AVERAGING_WINDOW (cfg self)) = 0" by simp
    then show ?thesis using nz by (simp add: sample_window_def Let_def)
  next
    case False
    with assms nz have neg: "SAMPLE_RATE_HZ (cfg self) < 0" by auto
    from False obtain n where n: "nat (AVERAGING_WINDOW (cfg self)) = Suc n"
      by (cases "nat (AVERAGING_WINDOW (cfg self))") auto
    have d: "1 / SAMPLE_RATE_HZ (cfg self) < 0" using neg by simp
    show ?thesis
      using nz n d by (simp add: sample_window_def Let_def sample_voltage_eq sleep_def)
  qed
qed

lemma run_invalid:
  assumes "SAMPLE_RATE_HZ (cfg self) \<le> 0 \<or> AVERAGING_WINDOW (cfg self) < 1"
  shows "\<exists>e w'. run env self w = Some (Inl e, self, w')
           \<and> (e = ZeroDivisionError \<or> e = ValueError)
           \<and> csv_file w' = csv_file w \<and> clock_reads w' = clock_reads w"
proof -
  from sample_window_invalid [OF assms, of env w]
  obtain e w' where s: "sample_window env self w = (Inl e, w')"
    "e = ZeroDivisionError \<or> e = ValueError"
    "csv_file w' = csv_file w" "clock_reads w' = clock_reads w"
    by blast
  have "cycle env self w = (Inl e, self, w')"
    using s(1) by (simp add: cycle_def)
  then have "run_loop env self w = Some (Inl e, self, w')"
    by (subst run_loop.simps) simp
  then have "run env self w = Some (Inl e, self, w')"
    by (simp add: run_def)
  with s(2,3,4) show ?thesis by blast
qed

text \<open>
  C7. With a sample rate above zero and a window size of at least one, \<open>sample_window\<close>
  draws exactly \<open>window size\<close> samples, the next reads of the ADC, and returns their
  arithmetic mean. What happens during the window is, for each sample in turn, the sample
  and then a sleep of \<open>1 / sample rate\<close>: the first thing is a sample with no sleep
  before it, and one sleep of that length lies between two consecutive samples (and one
  more follows the last sample).
\<close>

theorem sample_window_mean:
  assumes "SAMPLE_RATE_HZ (cfg self) > 0" and "AVERAGING_WINDOW (cfg self) \<ge> 1"
  shows "\<exists>vs w'.
           sample_window env self w = (Inr (sum_list vs / real (length vs)), w')
         \<and> vs = map (reading env) [adc_reads w ..< adc_reads w + nat (AVERAGING_WINDOW (cfg self))]
         \<and> int (length vs) = AVERAGING_WINDOW (cfg self)
         \<and> adc_reads w' = adc_reads w + nat (AVERAGING_WINDOW (cfg self))
         \<and> events w' = events w
             @ concat (map (\<lambda>v. [Sampled v, Slept (1 / SAMPLE_RATE_HZ (cfg self))]) vs)"
  using sample_window_ok [OF assms, of env w] by blast

theorem sample_window_mean_witness:
  "SAMPLE_RATE_HZ (cfg (new_Collector default_Config)) > 0
   \<and> AVERAGING_WINDOW (cfg (new_Collector default_Config)) \<ge> 1
   \<and> (\<exists>w'.
         sample_window quiet_env (new_Collector default_Config) empty_world
           = (Inr (sum_list (map (reading quiet_env) [0..<20]) / 20), w')
       \<and> adc_reads w' = 20)"
proof -
  have c: "SAMPLE_RATE_HZ (cfg (new_Collector default_Config)) = 50"
    "AVERAGING_WINDOW (cfg (new_Collector default_Config)) = 20"
    by (simp_all add: new_Collector_def default_Config_def)
  have a: "adc_reads empty_world = 0" by (simp add: empty_world_def)
  from sample_window_mean [of "new_Collector default_Config" quiet_env empty_world]
  show ?thesis unfolding c a by auto
qed

text \<open>
  C5. While no file operation fails, for a sample rate above zero, a window size of at
  least one and a gain other than zero: with a maximum record count above zero, the loop
  of a newly built collector returns when its record counter is the maximum, after
  exactly that many windows; \<open>run\<close> then flushes once, and the counter of written records
  is the maximum, the buffer is empty and the file has that many rows more. With a
  maximum of 0 the run never returns.
\<close>

theorem run_stops_at_max:
  assumes "no_faults env" and "SAMPLE_RATE_HZ c > 0" and "AVERAGING_WINDOW c \<ge> 1"
    and "AMPLIFIER_GAIN c \<noteq> 0"
  shows "(0 < MAX_RECORDS c \<longrightarrow>
           (\<exists>self w0 self1 w1 lg w2 rs.
               Collector_init env c w = (Inr self, w0)
             \<and> run_loop env self w0 = Some (Inr (), self1, w1)
             \<and> record_count self1 = MAX_RECORDS c
             \<and> adc_reads w1 = adc_reads w + nat (MAX_RECORDS c) * nat (AVERAGING_WINDOW c)
             \<and> flush env (logger self1) w1 = (Inr (), lg, w2)
             \<and> main env c w = Some (Inr (), Some (self1\<lparr>logger := lg\<rparr>), w2)
             \<and> total_written lg = MAX_RECORDS c \<and> buffer lg = []
             \<and> int (length rs) = MAX_RECORDS c
             \<and> file_lines w2
                 = (if csv_file w = None then [Header HEADERS] else file_lines w) @ map Data rs))
       \<and> (MAX_RECORDS c = 0 \<longrightarrow> main env c w = None)"
proof -
  let ?self = "new_Collector c"
  from Collector_init_ok [OF assms(1), of c w]
  obtain w0 where i: "Collector_init env c w = (Inr ?self, w0)"
    "file_lines w0 = (if csv_file w = None then [Header HEADERS] else file_lines w)"
    "adc_reads w0 = adc_reads w"
    by blast
  have v: "SAMPLE_RATE_HZ (cfg ?self) > 0" "AVERAGING_WINDOW (cfg ?self) \<ge> 1"
    "gain (math ?self) \<noteq> 0"
    using assms(2,3,4) by (simp_all add: new_Collector_def)
  have fresh: "cfg ?self = c" "record_count ?self = 0" "buffer (logger ?self) = []"
    "total_written (logger ?self) = 0"
    by (simp_all add: new_Collector_def)
  have bounded: "0 < MAX_RECORDS c \<longrightarrow>
           (\<exists>self w0 self1 w1 lg w2 rs.
               Collector_init env c w = (Inr self, w0)
             \<and> run_loop env self w0 = Some (Inr (), self1, w1)
             \<and> record_count self1 = MAX_RECORDS c
             \<and> adc_reads w1 = adc_reads w + nat (MAX_RECORDS c) * nat (AVERAGING_WINDOW c)
             \<and> flush env (logger self1) w1 = (Inr (), lg, w2)
             \<and> main env c w = Some (Inr (), Some (self1\<lparr>logger := lg\<rparr>), w2)
             \<and> total_written lg = MAX_RECORDS c \<and> buffer lg = []
             \<and> int (length rs) = MAX_RECORDS c
             \<and> file_lines w2
                 = (if csv_file w = None then [Header HEADERS] else file_lines w) @ map Data rs)"
  proof
    assume pos: "0 < MAX_RECORDS c"
    let ?n = "nat (MAX_RECORDS c)"
    have p4: "0 < MAX_RECORDS (cfg ?self)" and p5: "record_count ?self < MAX_RECORDS (cfg ?self)"
      and p6: "?n = nat (MAX_RECORDS (cfg ?self) - record_count ?self)"
      using pos fresh by simp_all
    from run_loop_stops [OF assms(1) v p4 p5 p6, of w0]
    obtain lg1 w1 rs where l:
      "run_loop env ?self w0
          = Some (Inr (), ?self\<lparr>logger := lg1, record_count := MAX_RECORDS (cfg ?self)\<rparr>, w1)"
      "total_written lg1 + int (length (buffer lg1))
          = total_written (logger ?self) + int (length (buffer (logger ?self))) + int ?n"
      "length rs = ?n"
      "file_lines w1 @ map Data (buffer lg1)
          = file_lines w0 @ map Data (buffer (logger ?self)) @ map Data rs"
      "adc_reads w1 = adc_reads w0 + ?n * nat (AVERAGING_WINDOW (cfg ?self))"
      by blast
    let ?self1 = "?self\<lparr>logger := lg1, record_count := MAX_RECORDS (cfg ?self)\<rparr>"
    from flush_rows [OF assms(1), of lg1 w1]
    obtain lg w2 where f: "flush env lg1 w1 = (Inr (), lg, w2)" "buffer lg = []"
      "total_written lg = total_written lg1 + int (length (buffer lg1))"
      "file_lines w2 = file_lines w1 @ map Data (buffer lg1)"
      by blast
    have f': "flush env (logger ?self1) w1 = (Inr (), lg, w2)" using f(1) by simp
    have r: "run env ?self w0 = Some (Inr (), ?self1\<lparr>logger := lg\<rparr>, w2)"
      using l(1) f' by (simp add: run_def)
    have m: "main env c w = Some (Inr (), Some (?self1\<lparr>logger := lg\<rparr>), w2)"
      using i(1) r by (simp add: main_def)
    have rc: "record_count ?self1 = MAX_RECORDS c" using fresh(1) by simp
    have adc: "adc_reads w1 = adc_reads w + ?n * nat (AVERAGING_WINDOW c)"
      using l(5) i(3) fresh(1) by simp
    have tot: "total_written lg = MAX_RECORDS c"
      using f(3) l(2) fresh(3,4) pos by simp
    have len: "int (length rs) = MAX_RECORDS c" using l(3) pos by simp
    have rows: "file_lines w2
                 = (if csv_file w = None then [Header HEADERS] else file_lines w) @ map Data rs"
      using f(4) l(4) i(2) fresh(3) by simp
    from i(1) l(1) rc adc f' m tot f(2) len rows
    show "\<exists>self w0 self1 w1 lg w2 rs.
               Collector_init env c w = (Inr self, w0)
             \<and> run_loop env self w0 = Some (Inr (), self1, w1)
             \<and> record_count self1 = MAX_RECORDS c
             \<and> adc_reads w1 = adc_reads w + nat (MAX_RECORDS c) * nat (AVERAGING_WINDOW c)
             \<and> flush env (logger self1) w1 = (Inr (), lg, w2)
             \<and> main env c w = Some (Inr (), Some (self1\<lparr>logger := lg\<rparr>), w2)
             \<and> total_written lg = MAX_RECORDS c \<and> buffer lg = []
             \<and> int (length rs) = MAX_RECORDS c
             \<and> file_lines w2
                 = (if csv_file w = None then [Header HEADERS] else file_lines w) @ map Data rs"
      by blast
  qed
  have unbounded: "MAX_RECORDS c = 0 \<longrightarrow> main env c w = None"
  proof
    assume z: "MAX_RECORDS c = 0"
    then have "MAX_RECORDS (cfg ?self) = 0" using fresh(1) by simp
    from run_loop_forever [OF assms(1) v this, of w0]
    have "run env ?self w0 = None" by (simp add: run_def)
    with i(1) show "main env c w = None" by (simp add: main_def)
  qed
  from bounded unbounded show ?thesis by blast
qed

theorem run_stops_at_max_witness:
  "no_faults quiet_env
   \<and> SAMPLE_RATE_HZ three_records_Config > 0
   \<and> AVERAGING_WINDOW three_records_Config \<ge> 1
   \<and> AMPLIFIER_GAIN three_records_Config \<noteq> 0
   \<and> 0 < MAX_RECORDS three_records_Config
   \<and> (\<exists>self1 lg w2 rs.
         main quiet_env three_records_Config empty_world
           = Some (Inr (), Some (self1\<lparr>logger := lg\<rparr>), w2)
       \<and> record_count self1 = 3 \<and> total_written lg = 3 \<and> buffer lg = []
       \<and> int (length rs) = 3
       \<and> file_lines w2 = [Header HEADERS] @ map Data rs)
   \<and> MAX_RECORDS default_Config = 0
   \<and> main quiet_env default_Config empty_world = None"
proof -
  have c: "SAMPLE_RATE_HZ three_records_Config = 50" "AVERAGING_WINDOW three_records_Config = 1"
    "AMPLIFIER_GAIN three_records_Config = 100" "MAX_RECORDS three_records_Config = 3"
    by (simp_all add: three_records_Config_def default_Config_def)
  have d: "SAMPLE_RATE_HZ default_Config = 50" "AVERAGING_WINDOW default_Config = 20"
    "AMPLIFIER_GAIN default_Config = 100" "MAX_RECORDS default_Config = 0"
    by (simp_all add: default_Config_def)
  have e: "csv_file empty_world = None" by (simp add: empty_world_def)
  from run_stops_at_max [OF no_faults_quiet, of three_records_Config empty_world]
    run_stops_at_max [OF no_faults_quiet, of default_Config empty_world]
  show ?thesis
    unfolding c d using no_faults_quiet e by simp blast
qed

lemma py_round_zero: "py_round 0 n = 0"
  by (simp add: py_round_def round_half_even_def)

lemma py_round_230: "py_round 230 (Suc 0) = 230"
  by (simp add: py_round_def round_half_even_def)

text \<open>
  C9, as the claim states it, fails. With an idle threshold of 100 above a fault
  threshold of 0.5 the constructor succeeds, the run samples, and a record is built,
  logged and written to the file.
\<close>

theorem misordered_thresholds_run:
  "\<not> float_lt (IDLE_THRESHOLD misordered_Config) (FAULT_THRESHOLD misordered_Config)
   \<and> main quiet_env misordered_Config empty_world
     = Some (Inr (),
             Some ((new_Collector misordered_Config)
                    \<lparr>logger := \<lparr>flush_interval = 10, buffer = [], total_written = 1\<rparr>,
                      record_count := 1\<rparr>),
             \<lparr>csv_file = Some [Header HEADERS, Data (idle_row ''2024-01-01T00:00:00.000Z'')],
               file_ops = 3, adc_reads = 1, clock_reads = 1,
               events = [Sampled 0, Slept (1 / 50)]\<rparr>)"
proof -
  let ?c = misordered_Config
  let ?w0 = "\<lparr>csv_file = Some [Header HEADERS], file_ops = 2, adc_reads = 0, clock_reads = 0,
               events = []\<rparr>"
  let ?w1 = "\<lparr>csv_file = Some [Header HEADERS], file_ops = 2, adc_reads = 1, clock_reads = 0,
               events = [Sampled 0, Slept (1 / 50)]\<rparr>"
  let ?w2 = "\<lparr>csv_file = Some [Header HEADERS], file_ops = 2, adc_reads = 1, clock_reads = 1,
               events = [Sampled 0, Slept (1 / 50)]\<rparr>"
  let ?self1 = "(new_Collector ?c)\<lparr>logger := \<lparr>flush_interval = 10,
                   buffer = [idle_row ''2024-01-01T00:00:00.000Z''], total_written = 0\<rparr>,
                 record_count := 1\<rparr>"
  have cfg: "SAMPLE_RATE_HZ ?c = 50" "AVERAGING_WINDOW ?c = 1" "MAX_RECORDS ?c = 1"
    "CSV_FLUSH_INTERVAL ?c = 10" "AMPLIFIER_GAIN ?c = 100" "CT_RANGE_AMPS ?c = 50"
    "LINE_VOLTAGE ?c = 230" "PHASES ?c = 3" "IDLE_THRESHOLD ?c = Finite 100"
    "FAULT_THRESHOLD ?c = Finite (1 / 2)" "DEVICE_ID ?c = ''pi-001''"
    "MACHINE_ID ?c = ''machine-A''" "SLEEP_BETWEEN_WINDOWS_S ?c = 0"
    by (simp_all add: misordered_Config_def default_Config_def)
  have init: "Collector_init quiet_env ?c empty_world = (Inr (new_Collector ?c), ?w0)"
    by (simp add: Collector_init_def CSVLogger_init_def mkdir_parents_def write_headers_def
        write_lines_def quiet_env_def empty_world_def new_Collector_def cfg)
  have sw: "sample_window quiet_env (new_Collector ?c) ?w0 = (Inr 0, ?w1)"
    by (simp add: sample_window_def new_Collector_def cfg sample_voltage_def sleep_def
        quiet_env_def Let_def)
  have cy: "cycle quiet_env (new_Collector ?c) ?w0 = (Inr (), ?self1, ?w2)"
    unfolding cycle_def sw
    by (simp add: calculate_def classify_def Let_def log_def new_Collector_def cfg
        idle_row_def quiet_env_def py_round_zero py_round_230)
  have loop: "run_loop quiet_env (new_Collector ?c) ?w0 = Some (Inr (), ?self1, ?w2)"
    by (subst run_loop.simps, simp only: cy, simp add: cfg new_Collector_def)
  have "main quiet_env ?c empty_world
     = Some (Inr (),
             Some ((new_Collector ?c)
                    \<lparr>logger := \<lparr>flush_interval = 10, buffer = [], total_written = 1\<rparr>,
                      record_count := 1\<rparr>),
             \<lparr>csv_file = Some [Header HEADERS, Data (idle_row ''2024-01-01T00:00:00.000Z'')],
               file_ops = 3, adc_reads = 1, clock_reads = 1,
               events = [Sampled 0, Slept (1 / 50)]\<rparr>)"
    by (simp only: main_def init run_def loop prod.case sum.case option.case,
        simp add: flush_def write_lines_def quiet_env_def file_lines_def)
  moreover have "\<not> float_lt (IDLE_THRESHOLD ?c) (FAULT_THRESHOLD ?c)"
    by (simp add: cfg)
  ultimately show ?thesis by blast
qed

text \<open>
  C9, amended. The constructor checks nothing of the configuration. A sample rate that
  is not above zero or a window size below one is fatal in the first sampling window of
  the run: a collector has been built, the run raises \<^verbatim>\<open>ZeroDivisionError\<close> or
  \<^verbatim>\<open>ValueError\<close>, and no record has been produced: the clock has not been read for a
  timestamp, the buffer is empty, nothing is counted as written, and the file holds what
  it held (behind its header line, when the constructor created it).
\<close>

theorem invalid_sampling_fatal:
  assumes "no_faults env" and "SAMPLE_RATE_HZ c \<le> 0 \<or> AVERAGING_WINDOW c < 1"
  shows "\<exists>self w0 e w1.
           Collector_init env c w = (Inr self, w0)
         \<and> main env c w = Some (Inl e, Some self, w1)
         \<and> (e = ZeroDivisionError \<or> e = ValueError)
         \<and> record_count self = 0 \<and> buffer (logger self) = []
         \<and> total_written (logger self) = 0
         \<and> clock_reads w1 = clock_reads w
         \<and> file_lines w1 = (if csv_file w = None then [Header HEADERS] else file_lines w)"
proof -
  let ?self = "new_Collector c"
  from Collector_init_ok [OF assms(1), of c w]
  obtain w0 where i: "Collector_init env c w = (Inr ?self, w0)"
    "file_lines w0 = (if csv_file w = None then [Header HEADERS] else file_lines w)"
    "clock_reads w0 = clock_reads w"
    by blast
  have bad: "SAMPLE_RATE_HZ (cfg ?self) \<le> 0 \<or> AVERAGING_WINDOW (cfg ?self) < 1"
    using assms(2) by (simp add: new_Collector_def)
  from run_invalid [OF bad, of env w0]
  obtain e w1 where r: "run env ?self w0 = Some (Inl e, ?self, w1)"
    "e = ZeroDivisionError \<or> e = ValueError"
    "csv_file w1 = csv_file w0" "clock_reads w1 = clock_reads w0"
    by blast
  have m: "main env c w = Some (Inl e, Some ?self, w1)"
    using i(1) r(1) by (simp add: main_def)
  have fresh: "record_count ?self = 0" "buffer (logger ?self) = []"
    "total_written (logger ?self) = 0"
    by (simp_all add: new_Collector_def)
  have fl: "file_lines w1 = (if csv_file w = None then [Header HEADERS] else file_lines w)"
    using file_lines_cong [OF r(3)] i(2) by simp
  have ck: "clock_reads w1 = clock_reads w" using r(4) i(3) by simp
  from i(1) m r(2) fresh ck fl show ?thesis by blast
qed

theorem invalid_sampling_fatal_witness:
  "no_faults quiet_env
   \<and> AVERAGING_WINDOW (default_Config\<lparr>AVERAGING_WINDOW := 0\<rparr>) < 1
   \<and> SAMPLE_RATE_HZ (default_Config\<lparr>SAMPLE_RATE_HZ := - 50\<rparr>) \<le> 0
   \<and> (\<exists>self e w1.
         main quiet_env (default_Config\<lparr>AVERAGING_WINDOW := 0\<rparr>) empty_world
           = Some (Inl e, Some self, w1)
       \<and> buffer (logger self) = [] \<and> file_lines w1 = [Header HEADERS])
   \<and> (\<exists>self e w1.
         main quiet_env (default_Config\<lparr>SAMPLE_RATE_HZ := - 50\<rparr>) empty_world
           = Some (Inl e, Some self, w1)
       \<and> buffer (logger self) = [] \<and> file_lines w1 = [Header HEADERS])"
proof -
  have c: "AVERAGING_WINDOW (default_Config\<lparr>AVERAGING_WINDOW := 0\<rparr>) = 0"
    "SAMPLE_RATE_HZ (default_Config\<lparr>SAMPLE_RATE_HZ := - 50\<rparr>) = - 50"
    by simp_all
  have e: "csv_file empty_world = None" by (simp add: empty_world_def)
  from invalid_sampling_fatal
      [OF no_faults_quiet, of "default_Config\<lparr>AVERAGING_WINDOW := 0\<rparr>" empty_world]
    invalid_sampling_fatal
      [OF no_faults_quiet, of "default_Config\<lparr>SAMPLE_RATE_HZ := - 50\<rparr>" empty_world]
  show ?thesis
    unfolding c using no_faults_quiet e by simp blast
qed

end
